theory Spec2Isabelle
  imports Complex_Main
begin

section \<open>JavaScript values\<close>

text \<open>
  The client in \<^verbatim>\<open>src/lib/mcp-client.ts\<close> handles tool listings, tool-call arguments
  and tool results as untyped (\<^verbatim>\<open>any\<close>) values decoded from protocol messages. They are
  modelled as a tree: an object is the list of its own enumerable properties in
  enumeration order, so \<^verbatim>\<open>Object.values\<close> is the list of the second components.
\<close>

datatype jsval =
    JUndefined
  | JNull
  | JBool bool
  | JNum rat
  | JStr string
  | JArr "jsval list"
  | JObj "(string \<times> jsval) list"

text \<open>\<^verbatim>\<open>typeof v\<close>.\<close>

fun typeof :: "jsval \<Rightarrow> string" where
  "typeof JUndefined = ''undefined''"
| "typeof JNull = ''object''"
| "typeof (JBool b) = ''boolean''"
| "typeof (JNum n) = ''number''"
| "typeof (JStr s) = ''string''"
| "typeof (JArr vs) = ''object''"
| "typeof (JObj kvs) = ''object''"

text \<open>The truth value of \<^verbatim>\<open>v\<close> in a condition (\<^verbatim>\<open>if (v)\<close>, \<^verbatim>\<open>v && ...\<close>, \<^verbatim>\<open>v || ...\<close>).\<close>

fun truthy :: "jsval \<Rightarrow> bool" where
  "truthy JUndefined = False"
| "truthy JNull = False"
| "truthy (JBool b) = b"
| "truthy (JNum n) = (n \<noteq> 0)"
| "truthy (JStr s) = (s \<noteq> [])"
| "truthy (JArr vs) = True"
| "truthy (JObj kvs) = True"

text \<open>\<^verbatim>\<open>Array.isArray(v)\<close> and the elements of an array.\<close>

fun isArray :: "jsval \<Rightarrow> bool" where
  "isArray (JArr vs) = True"
| "isArray v = False"

fun elements :: "jsval \<Rightarrow> jsval list" where
  "elements (JArr vs) = vs"
| "elements v = []"

text \<open>
  \<^verbatim>\<open>v.k\<close> for the property names the client reads (\<^verbatim>\<open>tools\<close>, \<^verbatim>\<open>result\<close>, \<^verbatim>\<open>name\<close>,
  \<^verbatim>\<open>description\<close>, \<^verbatim>\<open>inputSchema\<close>): none of them is a property of an array or of a
  primitive, so only an object can hold one. The client reads a property only after it has
  checked that the value is truthy, so the read never throws.
\<close>

fun get_prop :: "jsval \<Rightarrow> string \<Rightarrow> jsval" where
  "get_prop (JObj kvs) k = (case map_of kvs k of Some v \<Rightarrow> v | None \<Rightarrow> JUndefined)"
| "get_prop v k = JUndefined"

text \<open>\<^verbatim>\<open>Object.values(v)\<close> of a non-array object.\<close>

fun object_values :: "jsval \<Rightarrow> jsval list" where
  "object_values (JObj kvs) = map snd kvs"
| "object_values v = []"

section \<open>Errors and built-ins\<close>

text \<open>
  A thrown value: \<^verbatim>\<open>new Error(msg)\<close> raised by the client itself, the \<^verbatim>\<open>SyntaxError\<close> of
  \<^verbatim>\<open>JSON.parse\<close>, or an exception of a collaborator (the model backend, a tool server),
  of which the client only ever reads the message.
\<close>

datatype error =
    Error string
  | SyntaxError string
  | Thrown string

text \<open>
  The built-in functions the client calls are parameters of the model:
  \<^verbatim>\<open>JSON.parse\<close> (\<open>Inl\<close> is the message of its \<^verbatim>\<open>SyntaxError\<close>), \<^verbatim>\<open>JSON.stringify(v)\<close>,
  \<^verbatim>\<open>JSON.stringify(v, null, 2)\<close> and \<^verbatim>\<open>String.prototype.trim\<close>.
\<close>

record builtins =
  json_parse :: "string \<Rightarrow> string + jsval"
  json_stringify :: "jsval \<Rightarrow> string"
  json_stringify2 :: "jsval \<Rightarrow> string"
  trim :: "string \<Rightarrow> string"

section \<open>Argument decoding (executeToolCalls, lines 177-188)\<close>

fun decode_arguments :: "('a builtins_scheme) \<Rightarrow> jsval \<Rightarrow> error + jsval" where
  "decode_arguments B (JStr s) =
     (case json_parse B (trim B s) of Inl m \<Rightarrow> Inl (SyntaxError m) | Inr v \<Rightarrow> Inr v)"
| "decode_arguments B args =
     (if typeof args = ''object'' \<and> args \<noteq> JNull then Inr args
      else Inl (Error (''Unexpected arguments type: '' @ typeof args)))"

section \<open>The client's maps\<close>

text \<open>
  Key equality of a JavaScript \<^verbatim>\<open>Map\<close> (SameValueZero): primitives are compared by
  value, an array or an object only by identity. The values handled here are decoded from
  separate protocol messages, so two occurrences of an array or object are never the same
  object.
\<close>

fun same_value_zero :: "jsval \<Rightarrow> jsval \<Rightarrow> bool" where
  "same_value_zero JUndefined JUndefined = True"
| "same_value_zero JNull JNull = True"
| "same_value_zero (JBool a) (JBool b) = (a = b)"
| "same_value_zero (JNum a) (JNum b) = (a = b)"
| "same_value_zero (JStr a) (JStr b) = (a = b)"
| "same_value_zero a b = False"

text \<open>
  \<^verbatim>\<open>Map.prototype.set\<close> and \<^verbatim>\<open>Map.prototype.get\<close>: a map is the list of its entries in
  insertion order; setting a key that is present replaces the value in place.
\<close>

fun map_set :: "(jsval \<times> 'v) list \<Rightarrow> jsval \<Rightarrow> 'v \<Rightarrow> (jsval \<times> 'v) list" where
  "map_set [] k v = [(k, v)]"
| "map_set ((k', v') # m) k v =
     (if same_value_zero k' k then (k', v) # m else (k', v') # map_set m k v)"

fun map_get :: "(jsval \<times> 'v) list \<Rightarrow> jsval \<Rightarrow> 'v option" where
  "map_get [] k = None"
| "map_get ((k', v') # m) k = (if same_value_zero k' k then Some v' else map_get m k)"

text \<open>
  The value type of \<^verbatim>\<open>mcpToolMap\<close> (lines 24-27). The name, the description and the
  schema are whatever the listing held; the server name is a key of the configuration.
\<close>

record tool_entry =
  name :: jsval
  description :: jsval
  inputSchema :: jsval
  serverName :: string

type_synonym catalog = "(jsval \<times> tool_entry) list"

text \<open>
  The fields of an \<^verbatim>\<open>MCPClient\<close> (lines 22-27). A \<^verbatim>\<open>Client\<close> object is opaque and
  reached only through its server's name, so \<^verbatim>\<open>clients\<close> is the list of the map's keys
  in insertion order.
\<close>

record mcp_client =
  clients :: "string list"
  connectedServers :: "string list"
  mcpToolMap :: catalog

definition new_MCPClient :: mcp_client where
  "new_MCPClient = \<lparr>clients = [], connectedServers = [], mcpToolMap = []\<rparr>"

definition clients_set :: "string list \<Rightarrow> string \<Rightarrow> string list" where
  "clients_set cs n = (if n \<in> set cs then cs else cs @ [n])"

section \<open>Messages, tool calls and the collaborators\<close>

text \<open>A tool call of the model: \<^verbatim>\<open>toolCall.function.name\<close> and \<^verbatim>\<open>toolCall.function.arguments\<close>.\<close>

record tool_call =
  function_name :: string
  function_arguments :: jsval

text \<open>
  A message of the conversation. Every field may be absent: the message the loop
  accumulates (line 293) is \<^verbatim>\<open>{ content: "", tool_calls: [] }\<close>, without a role.
\<close>

record message =
  role :: "string option"
  content :: string
  tool_calls :: "tool_call list option"
  msg_name :: "string option"

text \<open>
  A chunk of the model's streamed answer: \<^verbatim>\<open>part.message?.content\<close> (the empty string
  where it is absent: both are falsy) and \<^verbatim>\<open>part.message?.tool_calls\<close>.
\<close>

record part =
  p_content :: string
  p_tool_calls :: "tool_call list option"

text \<open>
  What a run does to the outside, in order: a call of the model backend (with the
  conversation and the tool specifications sent), a tool call dispatched to a server
  (server, tool, decoded arguments), a chunk enqueued on the output stream, a message
  appended to the conversation.
\<close>

datatype event =
    ModelCall "message list" "jsval list option"
  | ToolCall string string jsval
  | Enqueue string
  | Push message

text \<open>
  The collaborators. A connection attempt returns the message of the exception it throws,
  if any (\<^verbatim>\<open>new URL\<close> and \<^verbatim>\<open>client.connect\<close>); \<^verbatim>\<open>listTools\<close> returns a listing or throws.
  Each server is connected and listed once, so these depend on the server only.
  \<^verbatim>\<open>callTool\<close> and \<^verbatim>\<open>ollama.chat\<close> may answer differently each time: they depend on all
  that happened before. The model's answer is a stream of chunks, which may end with a
  failure; the stream is taken to end (a backend that never ends its answer is not
  modelled).
\<close>

record world = builtins +
  sse_connect :: "string \<Rightarrow> string \<Rightarrow> string option"
  stdio_connect ::
    "string \<Rightarrow> string \<Rightarrow> string list \<Rightarrow> (string \<times> string) list option \<Rightarrow> string option"
  listTools :: "string \<Rightarrow> string + jsval"
  callTool :: "event list \<Rightarrow> string \<Rightarrow> string \<Rightarrow> jsval \<Rightarrow> string + jsval"
  ollama_chat ::
    "event list \<Rightarrow> message list \<Rightarrow> jsval list option \<Rightarrow> string + (part list \<times> string option)"

section \<open>Initialization (initialize, lines 33-98)\<close>

text \<open>
  An entry of \<^verbatim>\<open>mcpServers\<close> in the configuration (lines 9-15). Reading and parsing
  \<^verbatim>\<open>mcp.json\<close> (lines 35-38) is left out: \<^verbatim>\<open>initialize\<close> is given the entries of
  \<^verbatim>\<open>mcpServers\<close>, in the order of \<^verbatim>\<open>Object.entries\<close>.
\<close>

record MCPServer =
  srv_type :: string
  url :: "string option"
  command :: "string option"
  args :: "string list option"
  env :: "(string \<times> string) list option"

text \<open>
  The body of the \<^verbatim>\<open>try\<close> of lines 49-82: the message of the exception thrown there,
  or \<open>None\<close> when the server is connected.
\<close>

definition connect_server :: "world \<Rightarrow> string \<Rightarrow> MCPServer \<Rightarrow> string option" where
  "connect_server W n serverInfo =
     (if srv_type serverInfo = ''sse'' then
        (case url serverInfo of
           None \<Rightarrow> Some (''URL is required for SSE server: '' @ n)
         | Some u \<Rightarrow>
             if u = [] then Some (''URL is required for SSE server: '' @ n)
             else sse_connect W n u)
      else if srv_type serverInfo = ''stdio'' then
        (case (command serverInfo, args serverInfo) of
           (Some c, Some a) \<Rightarrow>
             if c = [] then Some (''Command and args are required for stdio server: '' @ n)
             else stdio_connect W n c a (env serverInfo)
         | _ \<Rightarrow> Some (''Command and args are required for stdio server: '' @ n))
      else Some (''Unsupported server type: '' @ srv_type serverInfo))"

text \<open>The loop of lines 41-89 over \<^verbatim>\<open>Object.entries(mcpServers)\<close>; the \<^verbatim>\<open>catch\<close> rethrows.\<close>

fun connect_all :: "world \<Rightarrow> (string \<times> MCPServer) list \<Rightarrow> mcp_client \<Rightarrow> error option \<times> mcp_client" where
  "connect_all W [] c = (None, c)"
| "connect_all W ((n, serverInfo) # rest) c =
     (case connect_server W n serverInfo of
        Some msg \<Rightarrow> (Some (Error (''Failed to connect to MCP server '' @ n @ '': '' @ msg)), c)
      | None \<Rightarrow>
          connect_all W rest
            (c\<lparr>clients := clients_set (clients c) n,
               connectedServers := connectedServers c @ [n]\<rparr>))"

section \<open>The catalog (initializeTools, lines 100-148)\<close>

text \<open>Lines 110-127: the listing coerced to an array.\<close>

definition toolsArray :: "jsval \<Rightarrow> jsval list" where
  "toolsArray tools =
     (if isArray tools then elements tools
      else if truthy tools \<and> typeof tools = ''object'' then
        (if truthy (get_prop tools ''tools'') \<and> isArray (get_prop tools ''tools'')
         then elements (get_prop tools ''tools'')
         else if truthy (get_prop tools ''result'') \<and> isArray (get_prop tools ''result'')
         then elements (get_prop tools ''result'')
         else object_values tools)
      else [])"

text \<open>Lines 131-138: the test a record passes to be registered, and its entry.\<close>

definition registrable :: "jsval \<Rightarrow> bool" where
  "registrable tool \<longleftrightarrow> truthy tool \<and> typeof tool = ''object'' \<and> truthy (get_prop tool ''name'')"

definition entry_of :: "string \<Rightarrow> jsval \<Rightarrow> tool_entry" where
  "entry_of server tool =
     \<lparr>name = get_prop tool ''name'',
      description =
        (if truthy (get_prop tool ''description'') then get_prop tool ''description''
         else JStr []),
      inputSchema = get_prop tool ''inputSchema'',
      serverName = server\<rparr>"

text \<open>The inner loop of lines 130-139.\<close>

fun register_tools :: "string \<Rightarrow> jsval list \<Rightarrow> catalog \<Rightarrow> catalog" where
  "register_tools server [] m = m"
| "register_tools server (tool # rest) m =
     register_tools server rest
       (if registrable tool then map_set m (get_prop tool ''name'') (entry_of server tool)
        else m)"

text \<open>The outer loop of lines 103-140 over the connected clients; the \<^verbatim>\<open>catch\<close> rethrows.\<close>

fun list_servers :: "world \<Rightarrow> string list \<Rightarrow> catalog \<Rightarrow> error option \<times> catalog" where
  "list_servers W [] m = (None, m)"
| "list_servers W (server # rest) m =
     (case listTools W server of
        Inl msg \<Rightarrow> (Some (Error (''Failed to list MCP tools: '' @ msg)), m)
      | Inr tools \<Rightarrow> list_servers W rest (register_tools server (toolsArray tools) m))"

definition initializeTools :: "world \<Rightarrow> mcp_client \<Rightarrow> error option \<times> mcp_client" where
  "initializeTools W c =
     (case list_servers W (clients c) (mcpToolMap c) of
        (r, m) \<Rightarrow> (r, c\<lparr>mcpToolMap := m\<rparr>))"

definition initialize :: "world \<Rightarrow> (string \<times> MCPServer) list \<Rightarrow> mcp_client \<Rightarrow> error option \<times> mcp_client" where
  "initialize W mcpServers c =
     (case connect_all W mcpServers c of
        (Some e, c') \<Rightarrow> (Some e, c')
      | (None, c') \<Rightarrow>
          if length (connectedServers c') = 0
          then (Some (Error ''No MCP servers were successfully connected''), c')
          else initializeTools W c')"

text \<open>\<^verbatim>\<open>getOllamaTools\<close> (lines 150-166): the catalog in the backend's format.\<close>

definition getOllamaTools :: "catalog \<Rightarrow> jsval list" where
  "getOllamaTools m =
     map (\<lambda>(k, tool).
            JObj [(''type'', JStr ''function''),
                  (''function'',
                   JObj [(''name'', name tool),
                         (''description'', description tool),
                         (''parameters'', inputSchema tool)])]) m"

section \<open>The store\<close>

text \<open>
  The conversation is a JavaScript array of message objects, and both are shared by
  reference: \<^verbatim>\<open>chat\<close> copies the caller's array, hands the copy to
  \<^verbatim>\<open>executeToolCalls\<close>, and changes a message after it has pushed it. So arrays and
  message objects live in a store, at addresses; an address below \<open>nxt\<close> is allocated.
  The state also records, in order, what the run did to the outside.
\<close>

record state =
  objs :: "nat \<Rightarrow> message"
  arrs :: "nat \<Rightarrow> nat list"
  nxt :: nat
  trace :: "event list"

definition new_object :: "message \<Rightarrow> state \<Rightarrow> nat \<times> state" where
  "new_object m s = (nxt s, s\<lparr>objs := (objs s)(nxt s := m), nxt := Suc (nxt s)\<rparr>)"

definition new_array :: "nat list \<Rightarrow> state \<Rightarrow> nat \<times> state" where
  "new_array rs s = (nxt s, s\<lparr>arrs := (arrs s)(nxt s := rs), nxt := Suc (nxt s)\<rparr>)"

definition update_object :: "nat \<Rightarrow> (message \<Rightarrow> message) \<Rightarrow> state \<Rightarrow> state" where
  "update_object r f s = s\<lparr>objs := (objs s)(r := f (objs s r))\<rparr>"

text \<open>\<^verbatim>\<open>a.push(r)\<close>; the event records the message as it is when it is pushed.\<close>

definition array_push :: "nat \<Rightarrow> nat \<Rightarrow> state \<Rightarrow> state" where
  "array_push a r s =
     s\<lparr>arrs := (arrs s)(a := arrs s a @ [r]), trace := trace s @ [Push (objs s r)]\<rparr>"

text \<open>
  \<^verbatim>\<open>controller.enqueue(new TextEncoder().encode(c))\<close>. The consumer is taken to keep
  reading: on a stream that is still open, \<^verbatim>\<open>enqueue\<close> does not throw.
\<close>

definition enqueue :: "string \<Rightarrow> state \<Rightarrow> state" where
  "enqueue c s = s\<lparr>trace := trace s @ [Enqueue c]\<rparr>"

text \<open>The messages an array holds, read through the store.\<close>

definition conversation :: "state \<Rightarrow> nat \<Rightarrow> message list" where
  "conversation s a = map (objs s) (arrs s a)"

section \<open>Tool execution (executeToolCalls, lines 168-246)\<close>

definition newline :: string where
  "newline = [CHR 0x0A]"

text \<open>Line 213 and lines 227-233: the annotations streamed to the user.\<close>

definition toolResult :: "('a builtins_scheme) \<Rightarrow> string \<Rightarrow> jsval \<Rightarrow> string" where
  "toolResult B functionName r =
     ''**Tool Result ('' @ functionName @ ''):**'' @ newline @ ''```json'' @ newline
     @ json_stringify2 B r @ newline @ ''```'' @ newline @ newline"

definition error_payload :: "string \<Rightarrow> string \<Rightarrow> jsval" where
  "error_payload functionName msg =
     JObj [(''error'', JStr (''Failed to execute tool '' @ functionName @ '': '' @ msg))]"

definition errorResult :: "('a builtins_scheme) \<Rightarrow> string \<Rightarrow> string \<Rightarrow> string" where
  "errorResult B functionName msg =
     ''**Tool Error ('' @ functionName @ ''):**'' @ newline @ ''```json'' @ newline
     @ json_stringify2 B (error_payload functionName msg) @ newline @ ''```'' @ newline @ newline"

text \<open>Lines 217-221 and 237-243: the tool-role message, allocated and pushed.\<close>

definition tool_message :: "string \<Rightarrow> string \<Rightarrow> message" where
  "tool_message functionName c =
     \<lparr>role = Some ''tool'', content = c, tool_calls = None, msg_name = Some functionName\<rparr>"

definition push_message :: "nat \<Rightarrow> message \<Rightarrow> state \<Rightarrow> state" where
  "push_message a m s = (case new_object m s of (r, s') \<Rightarrow> array_push a r s')"

text \<open>
  Lines 199-209, inside the \<^verbatim>\<open>try\<close>: the client of the tool's server is looked up and
  the tool is called; \<open>Inl\<close> is the message of the exception thrown.
\<close>

definition call_client ::
  "world \<Rightarrow> string list \<Rightarrow> tool_entry \<Rightarrow> string \<Rightarrow> jsval \<Rightarrow> state \<Rightarrow> (string + jsval) \<times> state" where
  "call_client W cs mcpTool functionName parsedArgs s =
     (if serverName mcpTool \<in> set cs then
        (callTool W (trace s) (serverName mcpTool) functionName parsedArgs,
         s\<lparr>trace := trace s @ [ToolCall (serverName mcpTool) functionName parsedArgs]\<rparr>)
      else (Inl (''Client for server '' @ serverName mcpTool @ '' not found''), s))"

text \<open>
  Lines 198-244: the \<^verbatim>\<open>try\<close> block and its \<^verbatim>\<open>catch\<close>. Whether the call returns or
  throws, an annotation is streamed (when there is a controller) and a tool-role message
  is pushed.
\<close>

definition try_tool ::
  "world \<Rightarrow> string list \<Rightarrow> tool_entry \<Rightarrow> string \<Rightarrow> jsval \<Rightarrow> nat \<Rightarrow> bool \<Rightarrow> state \<Rightarrow> state" where
  "try_tool W cs mcpTool functionName parsedArgs messages controller s =
     (case call_client W cs mcpTool functionName parsedArgs s of
        (Inr r, s1) \<Rightarrow>
          push_message messages (tool_message functionName (json_stringify W r))
            (if controller then enqueue (toolResult W functionName r) s1 else s1)
      | (Inl msg, s1) \<Rightarrow>
          push_message messages
            (tool_message functionName (json_stringify W (error_payload functionName msg)))
            (if controller then enqueue (errorResult W functionName msg) s1 else s1))"

text \<open>
  The body of the \<^verbatim>\<open>for\<close> loop (lines 174-244) for one tool call. An error returned
  is an exception that leaves \<^verbatim>\<open>executeToolCalls\<close>: decoding the arguments and looking
  the tool up stand before the \<^verbatim>\<open>try\<close>.
\<close>

definition executeToolCall ::
  "world \<Rightarrow> catalog \<Rightarrow> string list \<Rightarrow> tool_call \<Rightarrow> nat \<Rightarrow> bool \<Rightarrow> state \<Rightarrow> error option \<times> state" where
  "executeToolCall W m cs toolCall messages controller s =
     (let functionName = function_name toolCall in
      case decode_arguments W (function_arguments toolCall) of
        Inl e \<Rightarrow> (Some e, s)
      | Inr parsedArgs \<Rightarrow>
          (case map_get m (JStr functionName) of
             None \<Rightarrow> (Some (Error (''MCP tool '' @ functionName @ '' not found'')), s)
           | Some mcpTool \<Rightarrow>
               (None, try_tool W cs mcpTool functionName parsedArgs messages controller s)))"

fun executeToolCalls ::
  "world \<Rightarrow> catalog \<Rightarrow> string list \<Rightarrow> tool_call list \<Rightarrow> nat \<Rightarrow> bool \<Rightarrow> state \<Rightarrow> error option \<times> state" where
  "executeToolCalls W m cs [] messages controller s = (None, s)"
| "executeToolCalls W m cs (toolCall # rest) messages controller s =
     (case executeToolCall W m cs toolCall messages controller s of
        (Some e, s') \<Rightarrow> (Some e, s')
      | (None, s') \<Rightarrow> executeToolCalls W m cs rest messages controller s')"

section \<open>The conversation loop (chat, lines 248-330)\<close>

definition maxIterations :: nat where
  "maxIterations = 10"

text \<open>Lines 295-304: the chunks of one answer, forwarded and accumulated into \<^verbatim>\<open>message\<close>.\<close>

fun read_stream :: "nat \<Rightarrow> part list \<Rightarrow> state \<Rightarrow> state" where
  "read_stream message [] s = s"
| "read_stream message (p # ps) s =
     (let s1 = (if p_content p \<noteq> []
                then update_object message (\<lambda>m. m\<lparr>content := content m @ p_content p\<rparr>)
                       (enqueue (p_content p) s)
                else s);
          s2 = (case p_tool_calls p of
                  Some tcs \<Rightarrow> update_object message (\<lambda>m. m\<lparr>tool_calls := Some tcs\<rparr>) s1
                | None \<Rightarrow> s1)
      in read_stream message ps s2)"

text \<open>Line 315: the annotation listing the tool calls.\<close>

definition toolCalls_json :: "tool_call list \<Rightarrow> jsval" where
  "toolCalls_json tcs =
     JArr (map (\<lambda>tc. JObj [(''function'',
                             JObj [(''name'', JStr (function_name tc)),
                                   (''arguments'', function_arguments tc)])]) tcs)"

definition toolCallInfo :: "('a builtins_scheme) \<Rightarrow> tool_call list \<Rightarrow> string" where
  "toolCallInfo B tcs =
     newline @ newline @ ''**Tool Calls:**'' @ newline @ ''```json'' @ newline
     @ json_stringify2 B (toolCalls_json tcs) @ newline @ ''```'' @ newline @ newline"

text \<open>Line 284: \<^verbatim>\<open>tools: allTools.length > 0 ? allTools : undefined\<close>.\<close>

definition tools_argument :: "jsval list \<Rightarrow> jsval list option" where
  "tools_argument allTools = (if length allTools > 0 then Some allTools else None)"

datatype outcome = Continue | Break | Abort error

text \<open>
  One turn of the \<^verbatim>\<open>while\<close> loop (lines 273-320). \<open>Abort\<close> is an exception that reaches
  the \<^verbatim>\<open>catch\<close> of line 324: the backend call failing, the stream failing, or
  \<^verbatim>\<open>executeToolCalls\<close> throwing.
\<close>

definition chat_iteration ::
  "world \<Rightarrow> catalog \<Rightarrow> string list \<Rightarrow> jsval list \<Rightarrow> nat \<Rightarrow> state \<Rightarrow> outcome \<times> state" where
  "chat_iteration W m cs allTools currentMessages s =
     (let tools = tools_argument allTools;
          s1 = s\<lparr>trace := trace s @ [ModelCall (conversation s currentMessages) tools]\<rparr>
      in case ollama_chat W (trace s) (conversation s currentMessages) tools of
           Inl msg \<Rightarrow> (Abort (Thrown msg), s1)
         | Inr (parts, failure) \<Rightarrow>
             (case new_object
                     \<lparr>role = None, content = [], tool_calls = Some [], msg_name = None\<rparr> s1 of
                (message, s2) \<Rightarrow>
                  (let s3 = read_stream message parts s2 in
                   case failure of
                     Some msg \<Rightarrow> (Abort (Thrown msg), s3)
                   | None \<Rightarrow>
                       (let s4 = array_push currentMessages message s3;
                            toolCalls = (case tool_calls (objs s4 message) of
                                           Some tcs \<Rightarrow> tcs
                                         | None \<Rightarrow> [])
                        in if length toolCalls = 0 then (Break, s4)
                           else
                             (let s5 = enqueue (toolCallInfo W toolCalls) s4;
                                  s6 = update_object message
                                         (\<lambda>m. m\<lparr>content := content m @ toolCallInfo W toolCalls\<rparr>)
                                         s5
                              in case executeToolCalls W m cs toolCalls currentMessages True s6 of
                                   (Some e, s7) \<Rightarrow> (Abort e, s7)
                                 | (None, s7) \<Rightarrow> (Continue, s7))))))"

text \<open>The \<^verbatim>\<open>while\<close> loop of lines 272-321.\<close>

function chat_loop ::
  "world \<Rightarrow> catalog \<Rightarrow> string list \<Rightarrow> jsval list \<Rightarrow> nat \<Rightarrow> nat \<Rightarrow> state \<Rightarrow> error option \<times> state" where
  "chat_loop W m cs allTools currentMessages iterationCount s =
     (if iterationCount < maxIterations then
        (case chat_iteration W m cs allTools currentMessages s of
           (Continue, s') \<Rightarrow> chat_loop W m cs allTools currentMessages (iterationCount + 1) s'
         | (Break, s') \<Rightarrow> (None, s')
         | (Abort e, s') \<Rightarrow> (Some e, s'))
      else (None, s))"
  by pat_completeness auto
termination
  by (relation "measure (\<lambda>(W, m, cs, allTools, currentMessages, iterationCount, s).
                  maxIterations - iterationCount)") auto

declare chat_loop.simps [simp del]

text \<open>How the output stream ends: \<^verbatim>\<open>controller.close()\<close> or \<^verbatim>\<open>controller.error(error)\<close>.\<close>

datatype stream_end = Closed | Errored error

text \<open>
  \<^verbatim>\<open>chat\<close> with the stream's \<^verbatim>\<open>start\<close> run to its end: \<^verbatim>\<open>messages\<close> is the address of
  the caller's array, and the local copy \<^verbatim>\<open>currentMessages\<close> is allocated at \<open>nxt s\<close>.
\<close>

definition chat :: "world \<Rightarrow> mcp_client \<Rightarrow> nat \<Rightarrow> state \<Rightarrow> stream_end \<times> state" where
  "chat W self messages s =
     (let allTools = getOllamaTools (mcpToolMap self) in
      case new_array (arrs s messages) s of
        (currentMessages, s0) \<Rightarrow>
          (case chat_loop W (mcpToolMap self) (clients self) allTools currentMessages 0 s0 of
             (None, s') \<Rightarrow> (Closed, s')
           | (Some e, s') \<Rightarrow> (Errored e, s')))"

section \<open>Describing the catalog\<close>

text \<open>
  The shapes of a tool listing the specification tolerates, with the sequence of records
  each one stands for: a bare sequence, an object with an array under \<^verbatim>\<open>tools\<close>, an object
  with an array under \<^verbatim>\<open>result\<close> (and none under \<^verbatim>\<open>tools\<close>), and any other object, taken
  by its values.
\<close>

inductive tolerated_shape :: "jsval \<Rightarrow> jsval list \<Rightarrow> bool" where
  bare_sequence: "tolerated_shape (JArr ts) ts"
| tools_array: "map_of kvs ''tools'' = Some (JArr ts) \<Longrightarrow> tolerated_shape (JObj kvs) ts"
| result_array:
    "\<not> isArray (get_prop (JObj kvs) ''tools'') \<Longrightarrow> map_of kvs ''result'' = Some (JArr ts) \<Longrightarrow>
     tolerated_shape (JObj kvs) ts"
| keyed_map:
    "\<not> isArray (get_prop (JObj kvs) ''tools'') \<Longrightarrow> \<not> isArray (get_prop (JObj kvs) ''result'') \<Longrightarrow>
     tolerated_shape (JObj kvs) (map snd kvs)"

code_pred tolerated_shape .

text \<open>
  The registrations of a run, in order: for each server in turn, its records that pass
  the test of line 131. The latest registration under a name, and the string keys of a map.
\<close>

definition registrations :: "(string \<Rightarrow> jsval list) \<Rightarrow> string list \<Rightarrow> (string \<times> jsval) list" where
  "registrations recs servers =
     concat (map (\<lambda>s. map (Pair s) (filter registrable (recs s))) servers)"

definition latest_registration :: "(string \<times> jsval) list \<Rightarrow> string \<Rightarrow> tool_entry option" where
  "latest_registration regs n =
     (let named = filter (\<lambda>(s, t). get_prop t ''name'' = JStr n) regs
      in if named = [] then None
         else Some (entry_of (fst (last named)) (snd (last named))))"

definition string_keys :: "(jsval \<times> 'v) list \<Rightarrow> string list" where
  "string_keys m = concat (map (\<lambda>(k, v). case k of JStr s \<Rightarrow> [s] | _ \<Rightarrow> []) m)"

text \<open>One registration (line 132).\<close>

definition set_registration :: "catalog \<Rightarrow> string \<times> jsval \<Rightarrow> catalog" where
  "set_registration m r = map_set m (get_prop (snd r) ''name'') (entry_of (fst r) (snd r))"

section \<open>Describing a run\<close>

text \<open>
  What the trace of a run shows: the number of calls of the model backend, the chunks
  enqueued on the output stream, and the events that are not output chunks.
\<close>

fun is_ModelCall :: "event \<Rightarrow> bool" where
  "is_ModelCall (ModelCall msgs tools) = True"
| "is_ModelCall e = False"

definition model_calls :: "event list \<Rightarrow> nat" where
  "model_calls tr = length (filter is_ModelCall tr)"


definition enqueued :: "event list \<Rightarrow> string list" where
  "enqueued tr = concat (map (\<lambda>e. case e of Enqueue c \<Rightarrow> [c] | _ \<Rightarrow> []) tr)"

text \<open>
  What one answer of the model holds: the text chunks (a chunk without text carries
  none), the whole text, and the tool calls it announces, which are those of the last
  chunk that carries a tool-call list.
\<close>

definition text_chunks :: "part list \<Rightarrow> string list" where
  "text_chunks parts = filter (\<lambda>c. c \<noteq> []) (map p_content parts)"

definition streamed_text :: "part list \<Rightarrow> string" where
  "streamed_text parts = concat (map p_content parts)"

fun announced :: "part list \<Rightarrow> tool_call list option" where
  "announced [] = None"
| "announced (p # ps) =
     (case announced ps of Some tcs \<Rightarrow> Some tcs | None \<Rightarrow> p_tool_calls p)"

definition announced_tool_calls :: "part list \<Rightarrow> tool_call list" where
  "announced_tool_calls parts = (case announced parts of Some tcs \<Rightarrow> tcs | None \<Rightarrow> [])"

text \<open>A tool call whose arguments decode and whose name is a key of the catalog.\<close>

definition call_ok :: "world \<Rightarrow> catalog \<Rightarrow> tool_call \<Rightarrow> bool" where
  "call_ok W m tc =
     (case decode_arguments W (function_arguments tc) of
        Inl e \<Rightarrow> False
      | Inr a \<Rightarrow> map_get m (JStr (function_name tc)) \<noteq> None)"

text \<open>
  The store is well formed at an array when every reference the array holds is allocated.
\<close>

definition refs_allocated :: "state \<Rightarrow> nat \<Rightarrow> bool" where
  "refs_allocated s a \<longleftrightarrow> (\<forall>r \<in> set (arrs s a). r < nxt s)"

text \<open>
  What a run leaves alone: from \<open>s\<close> to \<open>s'\<close> nothing is deallocated, every array but \<open>a\<close>
  is unchanged, and every object below \<open>n\<close> is unchanged.
\<close>

definition preserved :: "nat \<Rightarrow> nat \<Rightarrow> state \<Rightarrow> state \<Rightarrow> bool" where
  "preserved n a s s' \<longleftrightarrow>
     nxt s \<le> nxt s' \<and> (\<forall>b. b \<noteq> a \<longrightarrow> arrs s' b = arrs s b) \<and> (\<forall>r < n. objs s' r = objs s r)"

text \<open>
  One chunk absorbed into the pending message, all chunks of an answer absorbed into it,
  and the message a whole answer accumulates to from the fresh one of line 293.
\<close>

definition absorb :: "part \<Rightarrow> message \<Rightarrow> message" where
  "absorb p m =
     (case p_tool_calls p of
        Some tcs \<Rightarrow> m\<lparr>content := content m @ p_content p, tool_calls := Some tcs\<rparr>
      | None \<Rightarrow> m\<lparr>content := content m @ p_content p\<rparr>)"

definition accumulate :: "part list \<Rightarrow> message \<Rightarrow> message" where
  "accumulate parts m =
     m\<lparr>content := content m @ streamed_text parts,
       tool_calls := (case announced parts of Some tcs \<Rightarrow> Some tcs | None \<Rightarrow> tool_calls m)\<rparr>"

definition answer_message :: "part list \<Rightarrow> message" where
  "answer_message parts =
     \<lparr>role = None, content = streamed_text parts,
      tool_calls = Some (announced_tool_calls parts), msg_name = None\<rparr>"

text \<open>
  The state after the model was called and its answer streamed and pushed (lines 281-306),
  and after the tool-call annotation was streamed and added to that message (lines
  315-317).
\<close>

definition answered :: "jsval list \<Rightarrow> nat \<Rightarrow> part list \<Rightarrow> state \<Rightarrow> state" where
  "answered allTools a parts s =
     array_push a (nxt s)
       (read_stream (nxt s) parts
          (snd (new_object \<lparr>role = None, content = [], tool_calls = Some [], msg_name = None\<rparr>
                  (s\<lparr>trace := trace s @ [ModelCall (conversation s a) (tools_argument allTools)]\<rparr>))))"

definition annotated :: "world \<Rightarrow> jsval list \<Rightarrow> nat \<Rightarrow> part list \<Rightarrow> state \<Rightarrow> state" where
  "annotated W allTools a parts s =
     update_object (nxt s)
       (\<lambda>m. m\<lparr>content := content m @ toolCallInfo W (announced_tool_calls parts)\<rparr>)
       (enqueue (toolCallInfo W (announced_tool_calls parts)) (answered allTools a parts s))"

text \<open>
  What one dispatched tool call comes to (lines 199-209): the outcome of the call, which is
  the exception's message when the server has no client or the tool throws; the dispatch
  event, if the server has a client; the tool-role message pushed for the outcome; and
  the annotation streamed for it.
\<close>

definition dispatch ::
  "world \<Rightarrow> string list \<Rightarrow> tool_entry \<Rightarrow> string \<Rightarrow> jsval \<Rightarrow> event list \<Rightarrow> string + jsval" where
  "dispatch W cs t f p tr =
     (if serverName t \<in> set cs then callTool W tr (serverName t) f p
      else Inl (''Client for server '' @ serverName t @ '' not found''))"

definition dispatch_events :: "string list \<Rightarrow> tool_entry \<Rightarrow> string \<Rightarrow> jsval \<Rightarrow> event list" where
  "dispatch_events cs t f p = (if serverName t \<in> set cs then [ToolCall (serverName t) f p] else [])"

definition tool_reply :: "world \<Rightarrow> string \<Rightarrow> string + jsval \<Rightarrow> message" where
  "tool_reply W f outcome =
     tool_message f
       (case outcome of
          Inr r \<Rightarrow> json_stringify W r
        | Inl msg \<Rightarrow> json_stringify W (error_payload f msg))"

definition tool_annotation :: "world \<Rightarrow> string \<Rightarrow> string + jsval \<Rightarrow> string" where
  "tool_annotation W f outcome =
     (case outcome of Inr r \<Rightarrow> toolResult W f r | Inl msg \<Rightarrow> errorResult W f msg)"

text \<open>
  Two kinds of model backend: one whose every answer announces at least one tool call
  whose name is in the catalog, and one whose every answer announces at least one tool
  call and only tool calls that are in order (the name is in the catalog and the
  arguments decode).
\<close>

definition always_emits_resolvable :: "world \<Rightarrow> catalog \<Rightarrow> bool" where
  "always_emits_resolvable W m \<longleftrightarrow>
     (\<forall>tr msgs tools. \<exists>parts.
        ollama_chat W tr msgs tools = Inr (parts, None)
        \<and> (\<exists>tc \<in> set (announced_tool_calls parts). map_get m (JStr (function_name tc)) \<noteq> None))"

definition always_calls_tools :: "world \<Rightarrow> catalog \<Rightarrow> bool" where
  "always_calls_tools W m \<longleftrightarrow>
     (\<forall>tr msgs tools. \<exists>parts.
        ollama_chat W tr msgs tools = Inr (parts, None)
        \<and> announced_tool_calls parts \<noteq> []
        \<and> (\<forall>tc \<in> set (announced_tool_calls parts). call_ok W m tc))"

text \<open>The server calls for one tool that a trace shows.\<close>

definition calls_of :: "string \<Rightarrow> event list \<Rightarrow> event list" where
  "calls_of f tr = filter (\<lambda>e. case e of ToolCall srv g p \<Rightarrow> g = f | _ \<Rightarrow> False) tr"



section \<open>Concrete inputs\<close>

text \<open>
  Small concrete collaborators and inputs, on which the properties below are exercised.
  The text \<^verbatim>\<open>{"a":1}\<close>:
\<close>

definition json_text_a1 :: string where
  "json_text_a1 = [CHR ''{'', CHR 0x22, CHR ''a'', CHR 0x22, CHR '':'', CHR ''1'', CHR ''}'']"

text \<open>
  A world whose parser knows two texts and trims blanks, with servers \<^verbatim>\<open>a\<close>, \<^verbatim>\<open>c\<close>,
  \<^verbatim>\<open>r\<close> and \<^verbatim>\<open>m\<close> that connect and list their tools, each in another shape, a server
  \<^verbatim>\<open>b\<close> that refuses the connection, one working tool, and a model that answers in three
  chunks without calling a tool.
\<close>

definition weather_tool :: jsval where
  "weather_tool =
     JObj [(''name'', JStr ''get_weather''), (''description'', JStr ''the weather''),
           (''inputSchema'', JObj [(''type'', JStr ''object'')])]"

definition time_tool :: jsval where
  "time_tool = JObj [(''name'', JStr ''get_time''), (''inputSchema'', JObj [])]"

definition nameless_record :: jsval where
  "nameless_record = JObj [(''description'', JStr ''nameless'')]"

definition hello_parts :: "part list" where
  "hello_parts =
     [\<lparr>p_content = ''Hel'', p_tool_calls = None\<rparr>,
      \<lparr>p_content = [], p_tool_calls = None\<rparr>,
      \<lparr>p_content = ''lo'', p_tool_calls = Some []\<rparr>]"

definition W0 :: world where
  "W0 =
     \<lparr>json_parse =
        (\<lambda>s. if s = json_text_a1 then Inr (JObj [(''a'', JNum 1)])
             else if s = ''{}'' then Inr (JObj [])
             else Inl ''Unexpected token''),
      json_stringify =
        (\<lambda>v. case v of JStr s \<Rightarrow> s | JObj ((k, JStr m) # kvs) \<Rightarrow> k @ '': '' @ m | _ \<Rightarrow> ''json''),
      json_stringify2 = (\<lambda>v. ''json''),
      trim =
        (\<lambda>s. rev (dropWhile (\<lambda>c. c = CHR '' '') (rev (dropWhile (\<lambda>c. c = CHR '' '') s)))),
      sse_connect = (\<lambda>n u. if n = ''b'' then Some ''ECONNREFUSED'' else None),
      stdio_connect = (\<lambda>n c a e. None),
      listTools =
        (\<lambda>n. if n = ''a'' then Inr (JObj [(''tools'', JArr [weather_tool, nameless_record])])
             else if n = ''c'' then Inr (JArr [weather_tool])
             else if n = ''r'' then Inr (JObj [(''result'', JArr [time_tool])])
             else if n = ''m'' then Inr (JObj [(''first'', time_tool), (''second'', weather_tool)])
             else Inl ''listing failed''),
      callTool =
        (\<lambda>tr server tool a. if tool = ''get_weather'' \<and> a = JObj [] then Inr (JStr ''sunny'')
                            else Inl ''boom''),
      ollama_chat = (\<lambda>tr msgs tools. Inr (hello_parts, None))\<rparr>"

definition sse_server :: "string \<Rightarrow> MCPServer" where
  "sse_server u = \<lparr>srv_type = ''sse'', url = Some u, command = None, args = None, env = None\<rparr>"

definition servers_ab :: "(string \<times> MCPServer) list" where
  "servers_ab = [(''a'', sse_server ''http://a''), (''b'', sse_server ''http://b'')]"

definition client_acrm :: mcp_client where
  "client_acrm =
     \<lparr>clients = [''a'', ''c'', ''r'', ''m''], connectedServers = [''a'', ''c'', ''r'', ''m''],
      mcpToolMap = []\<rparr>"

definition records_acrm :: "string \<Rightarrow> jsval list" where
  "records_acrm s =
     (if s = ''a'' then [weather_tool, nameless_record]
      else if s = ''c'' then [weather_tool]
      else if s = ''r'' then [time_tool]
      else [time_tool, weather_tool])"

text \<open>
  A client connected to server \<^verbatim>\<open>a\<close> with the weather tool in its catalog, a store that
  holds the caller's array (at address 0) of one user message (at address 1), and tool
  calls: one that is in order, one naming a tool the catalog does not have, one whose
  arguments are not JSON, and one the tool fails on.
\<close>

definition client_w :: mcp_client where
  "client_w =
     \<lparr>clients = [''a''], connectedServers = [''a''],
      mcpToolMap = [(JStr ''get_weather'', entry_of ''a'' weather_tool)]\<rparr>"

definition user_message :: message where
  "user_message =
     \<lparr>role = Some ''user'', content = ''What is the weather?'', tool_calls = None,
      msg_name = None\<rparr>"

definition s0 :: state where
  "s0 = \<lparr>objs = (\<lambda>r. user_message), arrs = (\<lambda>a. [])(0 := [1]), nxt = 2, trace = []\<rparr>"

definition weather_call :: tool_call where
  "weather_call = \<lparr>function_name = ''get_weather'', function_arguments = JStr '' {} ''\<rparr>"

definition unknown_call :: tool_call where
  "unknown_call = \<lparr>function_name = ''get_stock'', function_arguments = JObj []\<rparr>"

definition malformed_call :: tool_call where
  "malformed_call = \<lparr>function_name = ''get_weather'', function_arguments = JStr ''{oops''\<rparr>"

definition failing_call :: tool_call where
  "failing_call =
     \<lparr>function_name = ''get_weather'', function_arguments = JObj [(''city'', JStr ''Paris'')]\<rparr>"

text \<open>
  Models: one that calls the weather tool in its first answer and answers in plain text
  afterwards, and, for each tool call above, one that announces it in every answer.
\<close>

definition calling :: "tool_call list \<Rightarrow> part list \<times> string option" where
  "calling tcs = ([\<lparr>p_content = ''Let me check.'', p_tool_calls = Some tcs\<rparr>], None)"

definition W_once :: world where
  "W_once =
     W0\<lparr>ollama_chat :=
          (\<lambda>tr msgs tools. if model_calls tr = 0 then Inr (calling [weather_call])
                           else Inr ([\<lparr>p_content = ''Sunny.'', p_tool_calls = None\<rparr>], None))\<rparr>"

definition W_always :: "tool_call list \<Rightarrow> world" where
  "W_always tcs = W0\<lparr>ollama_chat := (\<lambda>tr msgs tools. Inr (calling tcs))\<rparr>"

section \<open>Properties\<close>

subsection \<open>Argument decoding\<close>

lemma decode_arguments_other:
  "typeof a \<noteq> ''string'' \<Longrightarrow> \<not> (typeof a = ''object'' \<and> a \<noteq> JNull) \<Longrightarrow>
   decode_arguments B a = Inl (Error (''Unexpected arguments type: '' @ typeof a))"
  by (cases a) simp_all

text \<open>
  Claim C6. A string argument is trimmed and parsed as JSON (so, where the parser reads
  \<^verbatim>\<open>{"a":1}\<close> as the object with \<^verbatim>\<open>a = 1\<close>, that is the decoded value, and a parse failure
  is the parser's \<^verbatim>\<open>SyntaxError\<close>); an object or array argument decodes to itself; every
  other argument (a number, a boolean, \<^verbatim>\<open>null\<close>, \<^verbatim>\<open>undefined\<close>) fails with the error
  \<^verbatim>\<open>Unexpected arguments type\<close>.
\<close>

theorem decode_arguments_by_kind:
  "decode_arguments B (JStr s) =
      (case json_parse B (trim B s) of Inl m \<Rightarrow> Inl (SyntaxError m) | Inr v \<Rightarrow> Inr v)
   \<and> (json_parse B (trim B json_text_a1) = Inr (JObj [(''a'', JNum 1)]) \<longrightarrow>
        decode_arguments B (JStr json_text_a1) = Inr (JObj [(''a'', JNum 1)]))
   \<and> decode_arguments B (JObj kvs) = Inr (JObj kvs)
   \<and> decode_arguments B (JArr vs) = Inr (JArr vs)
   \<and> (typeof a \<noteq> ''string'' \<and> \<not> (typeof a = ''object'' \<and> a \<noteq> JNull) \<longrightarrow>
        decode_arguments B a = Inl (Error (''Unexpected arguments type: '' @ typeof a)))"
  by (simp add: decode_arguments_other)

theorem decode_arguments_by_kind_witness:
  "json_parse W0 (trim W0 json_text_a1) = Inr (JObj [(''a'', JNum 1)])
   \<and> decode_arguments W0 (JStr json_text_a1) = Inr (JObj [(''a'', JNum 1)])
   \<and> decode_arguments W0 (JStr (''  '' @ json_text_a1 @ '' '')) = Inr (JObj [(''a'', JNum 1)])
   \<and> decode_arguments W0 (JObj [(''a'', JNum 1)]) = Inr (JObj [(''a'', JNum 1)])
   \<and> typeof (JNum 5) \<noteq> ''string''
   \<and> decode_arguments W0 (JNum 5) = Inl (Error ''Unexpected arguments type: number'')
   \<and> decode_arguments W0 JNull = Inl (Error ''Unexpected arguments type: object'')
   \<and> decode_arguments W0 JUndefined = Inl (Error ''Unexpected arguments type: undefined'')"
  using decode_arguments_by_kind [of W0 "''  '' @ json_text_a1 @ '' ''" "[(''a'', JNum 1)]" "[]" "JNum 5"]
        decode_arguments_by_kind [of W0 "json_text_a1" "[]" "[]" "JNull"]
        decode_arguments_by_kind [of W0 "json_text_a1" "[]" "[]" "JUndefined"]
  by (simp add: W0_def json_text_a1_def)

subsection \<open>Initialization\<close>

lemma set_foldl_clients_set: "set (foldl clients_set cs ns) = set cs \<union> set ns"
  by (induction ns arbitrary: cs) (auto simp: clients_set_def)

lemma connect_all_ok:
  "\<forall>(n, i) \<in> set srvs. connect_server W n i = None \<Longrightarrow>
   connect_all W srvs c =
     (None, c\<lparr>clients := foldl clients_set (clients c) (map fst srvs),
               connectedServers := connectedServers c @ map fst srvs\<rparr>)"
  by (induction srvs arbitrary: c) auto

lemma connect_all_first_failure:
  "\<forall>(n', i') \<in> set pre. connect_server W n' i' = None \<Longrightarrow>
   connect_server W n i = Some msg \<Longrightarrow>
   connect_all W (pre @ (n, i) # post) c =
     (Some (Error (''Failed to connect to MCP server '' @ n @ '': '' @ msg)),
      c\<lparr>clients := foldl clients_set (clients c) (map fst pre),
        connectedServers := connectedServers c @ map fst pre\<rparr>)"
  by (induction pre arbitrary: c) auto

lemma connect_all_ok_iff:
  "fst (connect_all W srvs c) = None \<longleftrightarrow> (\<forall>(n, i) \<in> set srvs. connect_server W n i = None)"
  by (induction srvs arbitrary: c) (auto split: option.splits)

lemma list_servers_ok_iff:
  "fst (list_servers W cs m) = None \<longleftrightarrow> (\<forall>s \<in> set cs. \<exists>l. listTools W s = Inr l)"
  by (induction cs arbitrary: m) (auto split: sum.splits)

lemma initializeTools_ok_iff:
  "fst (initializeTools W c) = None \<longleftrightarrow> (\<forall>s \<in> set (clients c). \<exists>l. listTools W s = Inr l)"
  by (simp add: initializeTools_def split_beta list_servers_ok_iff)

lemma initialize_ok_iff:
  "fst (initialize W mcpServers new_MCPClient) = None \<longleftrightarrow>
     mcpServers \<noteq> []
     \<and> (\<forall>(n, serverInfo) \<in> set mcpServers.
           connect_server W n serverInfo = None \<and> (\<exists>l. listTools W n = Inr l))"
proof (cases "\<forall>(n, i) \<in> set mcpServers. connect_server W n i = None")
  case True
  have listed: "fst (initializeTools W
          (new_MCPClient\<lparr>clients := foldl clients_set (clients new_MCPClient) (map fst mcpServers),
             connectedServers := connectedServers new_MCPClient @ map fst mcpServers\<rparr>)) = None
        \<longleftrightarrow> (\<forall>(n, i) \<in> set mcpServers. \<exists>l. listTools W n = Inr l)"
    by (auto simp: initializeTools_ok_iff set_foldl_clients_set new_MCPClient_def)
  show ?thesis
    unfolding initialize_def connect_all_ok [OF True]
    using True listed by (auto simp: new_MCPClient_def)
next
  case False
  then have "fst (connect_all W mcpServers new_MCPClient) \<noteq> None"
    by (simp add: connect_all_ok_iff)
  then show ?thesis
    using False by (auto simp: initialize_def split: prod.splits option.splits)
qed

text \<open>
  Claim C2, as amended. Initialization is fail-fast: it succeeds if and only if the
  configured list is not empty, every configured server connects and every server's tool
  listing succeeds. An empty list yields the error
  \<^verbatim>\<open>No MCP servers were successfully connected\<close>, and the first server that fails to
  connect ends initialization with \<^verbatim>\<open>Failed to connect to MCP server\<close>, whatever
  connected before it.
\<close>

theorem initialize_succeeds_iff_all_connect:
  "(fst (initialize W mcpServers new_MCPClient) = None \<longleftrightarrow>
      mcpServers \<noteq> []
      \<and> (\<forall>(n, serverInfo) \<in> set mcpServers.
            connect_server W n serverInfo = None \<and> (\<exists>l. listTools W n = Inr l)))
   \<and> (mcpServers = [] \<longrightarrow>
        fst (initialize W mcpServers new_MCPClient) =
          Some (Error ''No MCP servers were successfully connected''))
   \<and> (\<forall>pre n serverInfo post msg.
        mcpServers = pre @ (n, serverInfo) # post
        \<and> (\<forall>(n', i') \<in> set pre. connect_server W n' i' = None)
        \<and> connect_server W n serverInfo = Some msg \<longrightarrow>
        fst (initialize W mcpServers new_MCPClient) =
          Some (Error (''Failed to connect to MCP server '' @ n @ '': '' @ msg)))"
proof (intro conjI allI impI)
  show "fst (initialize W mcpServers new_MCPClient) = None \<longleftrightarrow>
      mcpServers \<noteq> []
      \<and> (\<forall>(n, serverInfo) \<in> set mcpServers.
            connect_server W n serverInfo = None \<and> (\<exists>l. listTools W n = Inr l))"
    by (rule initialize_ok_iff)
next
  assume "mcpServers = []"
  then show "fst (initialize W mcpServers new_MCPClient) =
          Some (Error ''No MCP servers were successfully connected'')"
    by (simp add: initialize_def new_MCPClient_def)
next
  fix pre n serverInfo post msg
  assume "mcpServers = pre @ (n, serverInfo) # post
        \<and> (\<forall>(n', i') \<in> set pre. connect_server W n' i' = None)
        \<and> connect_server W n serverInfo = Some msg"
  then show "fst (initialize W mcpServers new_MCPClient) =
          Some (Error (''Failed to connect to MCP server '' @ n @ '': '' @ msg))"
    by (simp add: initialize_def connect_all_first_failure)
qed


theorem initialize_succeeds_iff_all_connect_witness:
  "connect_server W0 ''a'' (sse_server ''http://a'') = None
   \<and> listTools W0 ''a'' \<noteq> Inl ''listing failed''
   \<and> fst (initialize W0 [(''a'', sse_server ''http://a'')] new_MCPClient) = None
   \<and> fst (initialize W0 [] new_MCPClient) =
        Some (Error ''No MCP servers were successfully connected'')
   \<and> connect_server W0 ''b'' (sse_server ''http://b'') = Some ''ECONNREFUSED''
   \<and> fst (initialize W0 servers_ab new_MCPClient) =
        Some (Error ''Failed to connect to MCP server b: ECONNREFUSED'')"
proof -
  have a: "connect_server W0 ''a'' (sse_server ''http://a'') = None"
    by (simp add: connect_server_def sse_server_def W0_def)
  have b: "connect_server W0 ''b'' (sse_server ''http://b'') = Some ''ECONNREFUSED''"
    by (simp add: connect_server_def sse_server_def W0_def)
  have l: "\<exists>l. listTools W0 ''a'' = Inr l"
    by (simp add: W0_def)
  have 1: "fst (initialize W0 [(''a'', sse_server ''http://a'')] new_MCPClient) = None"
    using initialize_succeeds_iff_all_connect [of W0 "[(''a'', sse_server ''http://a'')]"] a l
    by simp
  have 2: "fst (initialize W0 [] new_MCPClient) =
        Some (Error ''No MCP servers were successfully connected'')"
    using initialize_succeeds_iff_all_connect [of W0 "[]"] by simp
  have "servers_ab = [(''a'', sse_server ''http://a'')] @ (''b'', sse_server ''http://b'') # []
        \<and> (\<forall>(n', i') \<in> set [(''a'', sse_server ''http://a'')]. connect_server W0 n' i' = None)
        \<and> connect_server W0 ''b'' (sse_server ''http://b'') = Some ''ECONNREFUSED''"
    using a b by (simp add: servers_ab_def)
  then have 3: "fst (initialize W0 servers_ab new_MCPClient) =
        Some (Error (''Failed to connect to MCP server '' @ ''b'' @ '': '' @ ''ECONNREFUSED''))"
    using initialize_succeeds_iff_all_connect [of W0 servers_ab] by blast
  show ?thesis
    using a b 1 2 3 by (simp add: W0_def)
qed

text \<open>
  Claim C2 as stated fails: with servers \<^verbatim>\<open>a\<close> and \<^verbatim>\<open>b\<close> configured, \<^verbatim>\<open>a\<close> connects
  (and stays in \<^verbatim>\<open>connectedServers\<close>), \<^verbatim>\<open>b\<close> refuses, and initialization fails.
\<close>

theorem initialize_one_connects_counterexample:
  "connect_server W0 ''a'' (sse_server ''http://a'') = None
   \<and> connectedServers (snd (initialize W0 servers_ab new_MCPClient)) = [''a'']
   \<and> fst (initialize W0 servers_ab new_MCPClient) =
        Some (Error ''Failed to connect to MCP server b: ECONNREFUSED'')"
  by (simp add: initialize_def servers_ab_def connect_server_def sse_server_def W0_def
        new_MCPClient_def clients_set_def)

subsection \<open>The catalog\<close>

lemma set_registration_pair:
  "set_registration m (s, t) = map_set m (get_prop t ''name'') (entry_of s t)"
  by (simp add: set_registration_def)

lemma toolsArray_tolerated: "tolerated_shape l ts \<Longrightarrow> toolsArray l = ts"
proof (induction rule: tolerated_shape.induct)
  case (bare_sequence ts)
  show ?case by (simp add: toolsArray_def)
next
  case (tools_array kvs ts)
  then show ?case by (simp add: toolsArray_def)
next
  case (result_array kvs ts)
  then show ?case by (simp add: toolsArray_def)
next
  case (keyed_map kvs)
  then show ?case by (auto simp: toolsArray_def)
qed

lemma same_value_zero_eq: "same_value_zero a b \<Longrightarrow> a = b"
  by (induction a b rule: same_value_zero.induct) simp_all

lemma same_value_zero_JStr [simp]: "same_value_zero k (JStr n) \<longleftrightarrow> k = JStr n"
  by (cases k) simp_all

lemma map_get_map_set:
  "map_get (map_set m k v) (JStr n) = (if k = JStr n then Some v else map_get m (JStr n))"
  by (induction m) (auto dest: same_value_zero_eq)

lemma string_keys_Nil [simp]: "string_keys [] = []"
  by (simp add: string_keys_def)

lemma string_keys_Cons [simp]:
  "string_keys ((k, v) # m) = (case k of JStr s \<Rightarrow> [s] | _ \<Rightarrow> []) @ string_keys m"
  by (simp add: string_keys_def)

lemma map_get_None_iff: "map_get m (JStr n) = None \<longleftrightarrow> n \<notin> set (string_keys m)"
  by (induction m) (auto split: jsval.splits if_splits)

lemma string_keys_map_set:
  "string_keys (map_set m k v) =
     (case k of JStr n \<Rightarrow> if n \<in> set (string_keys m) then string_keys m else string_keys m @ [n]
      | _ \<Rightarrow> string_keys m)"
proof (induction m)
  case Nil
  show ?case by (simp split: jsval.splits)
next
  case (Cons p m)
  obtain k' v' where p: "p = (k', v')" by (cases p)
  show ?case
  proof (cases "same_value_zero k' k")
    case True
    then have "k' = k" by (rule same_value_zero_eq)
    then show ?thesis
      using True p by (auto split: jsval.splits)
  next
    case False
    then show ?thesis
      using p Cons.IH by (cases k; cases k') auto
  qed
qed

lemma distinct_string_keys_map_set:
  "distinct (string_keys m) \<Longrightarrow> distinct (string_keys (map_set m k v))"
  by (simp add: string_keys_map_set split: jsval.splits)

lemma set_map_set: "set (map_set m k v) \<subseteq> set m \<union> {(k, v)}"
  by (induction m) (auto dest: same_value_zero_eq split: if_splits)

lemma register_tools_foldl:
  "register_tools s ts m = foldl set_registration m (map (Pair s) (filter registrable ts))"
  by (induction ts arbitrary: m) (simp_all add: set_registration_pair)

lemma list_servers_foldl:
  "\<forall>s \<in> set servers. \<exists>l. listTools W s = Inr l \<and> tolerated_shape l (recs s) \<Longrightarrow>
   list_servers W servers m = (None, foldl set_registration m (registrations recs servers))"
proof (induction servers arbitrary: m)
  case Nil
  show ?case by (simp add: registrations_def)
next
  case (Cons s servers)
  from Cons.prems obtain l where l: "listTools W s = Inr l" "tolerated_shape l (recs s)"
    by auto
  have "list_servers W (s # servers) m =
          list_servers W servers (register_tools s (recs s) m)"
    using l by (simp add: toolsArray_tolerated)
  also have "\<dots> = (None, foldl set_registration (register_tools s (recs s) m)
                            (registrations recs servers))"
    using Cons.prems by (intro Cons.IH) simp
  finally show ?case
    by (simp add: register_tools_foldl registrations_def)
qed

lemma latest_registration_snoc:
  "latest_registration (regs @ [r]) n =
     (if get_prop (snd r) ''name'' = JStr n then Some (entry_of (fst r) (snd r))
      else latest_registration regs n)"
  by (cases r) (simp add: latest_registration_def)

lemma map_get_registrations:
  "map_get (foldl set_registration [] regs) (JStr n) = latest_registration regs n"
proof (induction regs rule: rev_induct)
  case Nil
  show ?case by (simp add: latest_registration_def)
next
  case (snoc r regs)
  then show ?case
    by (cases r) (simp add: latest_registration_snoc set_registration_pair map_get_map_set)
qed

lemma distinct_registrations: "distinct (string_keys (foldl set_registration [] regs))"
proof (induction regs rule: rev_induct)
  case Nil
  show ?case by simp
next
  case (snoc r regs)
  then show ?case
    by (cases r) (simp add: set_registration_pair distinct_string_keys_map_set)
qed

lemma entries_registrations:
  "(k, e) \<in> set (foldl set_registration [] regs) \<Longrightarrow>
   \<exists>(s, t) \<in> set regs. k = get_prop t ''name'' \<and> e = entry_of s t"
proof (induction regs arbitrary: k e rule: rev_induct)
  case Nil
  then show ?case by simp
next
  case (snoc r regs)
  obtain s t where r: "r = (s, t)" by (cases r)
  have "(k, e) \<in> set (map_set (foldl set_registration [] regs) (get_prop t ''name'') (entry_of s t))"
    using snoc.prems r by (simp add: set_registration_pair)
  then consider "(k, e) \<in> set (foldl set_registration [] regs)"
    | "k = get_prop t ''name''" "e = entry_of s t"
    using set_map_set by fastforce
  then show ?case
  proof cases
    case 1
    then show ?thesis using snoc.IH r by fastforce
  next
    case 2
    then show ?thesis using r by auto
  qed
qed

lemma set_registrations:
  "(s, t) \<in> set (registrations recs servers) \<longleftrightarrow> s \<in> set servers \<and> t \<in> set (recs s) \<and> registrable t"
  by (auto simp: registrations_def)

text \<open>
  Claim C5. When every connected server's listing arrives in a tolerated shape, building
  the catalog succeeds; no tool name is the key of two entries; the entry found under a
  name is the one of the latest registration under that name, in the order of the servers
  and of each listing (so a later server replaces an earlier one's tool of the same name);
  and every entry comes from a record that has a name, under that name.
\<close>

theorem catalog_one_entry_per_name:
  assumes "mcpToolMap c = []"
    and "\<forall>s \<in> set (clients c). \<exists>l. listTools W s = Inr l \<and> tolerated_shape l (recs s)"
  shows "fst (initializeTools W c) = None
    \<and> distinct (string_keys (mcpToolMap (snd (initializeTools W c))))
    \<and> (\<forall>n. map_get (mcpToolMap (snd (initializeTools W c))) (JStr n) =
            latest_registration (registrations recs (clients c)) n)
    \<and> (\<forall>(k, e) \<in> set (mcpToolMap (snd (initializeTools W c))).
          \<exists>s \<in> set (clients c). \<exists>t \<in> set (recs s).
            truthy (get_prop t ''name'') \<and> k = get_prop t ''name'' \<and> e = entry_of s t)"
proof -
  have m: "initializeTools W c =
      (None, c\<lparr>mcpToolMap := foldl set_registration [] (registrations recs (clients c))\<rparr>)"
    using assms by (simp add: initializeTools_def list_servers_foldl)
  have "\<exists>s \<in> set (clients c). \<exists>t \<in> set (recs s).
          truthy (get_prop t ''name'') \<and> k = get_prop t ''name'' \<and> e = entry_of s t"
    if "(k, e) \<in> set (foldl set_registration [] (registrations recs (clients c)))" for k e
  proof -
    from entries_registrations [OF that] obtain s t
      where "(s, t) \<in> set (registrations recs (clients c))" "k = get_prop t ''name''" "e = entry_of s t"
      by auto
    then show ?thesis
      by (auto simp: set_registrations registrable_def)
  qed
  then show ?thesis
    by (auto simp: m map_get_registrations distinct_registrations)
qed


theorem catalog_one_entry_per_name_witness:
  "mcpToolMap client_acrm = []
   \<and> listTools W0 ''a'' = Inr (JObj [(''tools'', JArr [weather_tool, nameless_record])])
   \<and> tolerated_shape (JObj [(''tools'', JArr [weather_tool, nameless_record])]) (records_acrm ''a'')
   \<and> tolerated_shape (JArr [weather_tool]) (records_acrm ''c'')
   \<and> tolerated_shape (JObj [(''result'', JArr [time_tool])]) (records_acrm ''r'')
   \<and> tolerated_shape (JObj [(''first'', time_tool), (''second'', weather_tool)]) (records_acrm ''m'')
   \<and> fst (initializeTools W0 client_acrm) = None
   \<and> string_keys (mcpToolMap (snd (initializeTools W0 client_acrm))) = [''get_weather'', ''get_time'']
   \<and> map_get (mcpToolMap (snd (initializeTools W0 client_acrm))) (JStr ''get_weather'') =
        Some (entry_of ''m'' weather_tool)
   \<and> map_get (mcpToolMap (snd (initializeTools W0 client_acrm))) (JStr ''get_time'') =
        Some (entry_of ''m'' time_tool)
   \<and> map_get (mcpToolMap (snd (initializeTools W0 client_acrm))) (JStr ''nameless'') = None"
proof -
  have a: "tolerated_shape (JObj [(''tools'', JArr [weather_tool, nameless_record])]) (records_acrm ''a'')"
    by (simp add: records_acrm_def tolerated_shape.tools_array)
  have c: "tolerated_shape (JArr [weather_tool]) (records_acrm ''c'')"
    by (simp add: records_acrm_def tolerated_shape.bare_sequence)
  have r: "tolerated_shape (JObj [(''result'', JArr [time_tool])]) (records_acrm ''r'')"
    by (simp add: records_acrm_def tolerated_shape.result_array)
  have m: "tolerated_shape (JObj [(''first'', time_tool), (''second'', weather_tool)]) (records_acrm ''m'')"
    using tolerated_shape.keyed_map [of "[(''first'', time_tool), (''second'', weather_tool)]"]
    by (simp add: records_acrm_def)
  have e: "mcpToolMap client_acrm = []"
    by (simp add: client_acrm_def)
  have l: "\<forall>s \<in> set (clients client_acrm).
             \<exists>l. listTools W0 s = Inr l \<and> tolerated_shape l (records_acrm s)"
    using a c r m by (simp add: client_acrm_def W0_def)
  have regs: "registrations records_acrm (clients client_acrm) =
      [(''a'', weather_tool), (''c'', weather_tool), (''r'', time_tool), (''m'', time_tool),
       (''m'', weather_tool)]"
    by (simp add: registrations_def client_acrm_def records_acrm_def registrable_def
          weather_tool_def time_tool_def nameless_record_def)
  have names: "get_prop weather_tool ''name'' = JStr ''get_weather''"
    "get_prop time_tool ''name'' = JStr ''get_time''"
    by (simp_all add: weather_tool_def time_tool_def)
  note t = catalog_one_entry_per_name [OF e l]
  have g: "map_get (mcpToolMap (snd (initializeTools W0 client_acrm))) (JStr n) =
        latest_registration (registrations records_acrm (clients client_acrm)) n" for n
    using t by blast
  have k: "string_keys (mcpToolMap (snd (initializeTools W0 client_acrm))) = [''get_weather'', ''get_time'']"
    by (simp add: initializeTools_def client_acrm_def W0_def toolsArray_def registrable_def
          weather_tool_def time_tool_def nameless_record_def entry_of_def)
  show ?thesis
    using a c r m e t k by (simp add: g regs latest_registration_def names) (simp add: W0_def)
qed

subsection \<open>The store and the frame of a run\<close>

lemma preserved_refl: "preserved n a s s"
  by (simp add: preserved_def)

lemma preserved_trans: "preserved n a s s1 \<Longrightarrow> preserved n a s1 s2 \<Longrightarrow> preserved n a s s2"
  by (auto simp: preserved_def)

lemma preserved_trace: "preserved n a s (s\<lparr>trace := tr\<rparr>)"
  by (simp add: preserved_def)

lemma preserved_try_tool:
  "n \<le> nxt s \<Longrightarrow> preserved n a s (try_tool W cs t f p a ctl s)"
  by (simp add: preserved_def try_tool_def call_client_def push_message_def new_object_def
        array_push_def enqueue_def split: sum.splits)

lemma preserved_executeToolCall:
  "n \<le> nxt s \<Longrightarrow> preserved n a s (snd (executeToolCall W m cs tc a ctl s))"
  by (simp add: executeToolCall_def Let_def preserved_try_tool preserved_refl
        split: sum.splits option.splits)

lemma preserved_executeToolCalls:
  "n \<le> nxt s \<Longrightarrow> preserved n a s (snd (executeToolCalls W m cs tcs a ctl s))"
proof (induction tcs arbitrary: s)
  case Nil
  show ?case by (simp add: preserved_refl)
next
  case (Cons tc tcs)
  obtain r s' where step: "executeToolCall W m cs tc a ctl s = (r, s')"
    by (cases "executeToolCall W m cs tc a ctl s")
  have p: "preserved n a s s'"
    using preserved_executeToolCall [OF Cons.prems, of a W m cs tc ctl] step by simp
  then have "n \<le> nxt s'"
    using Cons.prems by (simp add: preserved_def)
  then have "preserved n a s' (snd (executeToolCalls W m cs tcs a ctl s'))"
    by (rule Cons.IH)
  with p have "preserved n a s (snd (executeToolCalls W m cs tcs a ctl s'))"
    by (rule preserved_trans)
  with p show ?case
    using step by (cases r) simp_all
qed

lemma accumulate_Nil: "accumulate [] m = m"
  by (simp add: accumulate_def streamed_text_def)

lemma accumulate_Cons: "accumulate (p # ps) m = accumulate ps (absorb p m)"
  by (simp add: accumulate_def absorb_def streamed_text_def split: option.splits)

lemma text_chunks_Cons:
  "text_chunks (p # ps) = (if p_content p \<noteq> [] then [p_content p] else []) @ text_chunks ps"
  by (simp add: text_chunks_def)

lemma read_stream_Cons:
  "read_stream r (p # parts) s =
     read_stream r parts
       (s\<lparr>objs := (objs s)(r := absorb p (objs s r)),
          trace := trace s @ (if p_content p \<noteq> [] then [Enqueue (p_content p)] else [])\<rparr>)"
proof -
  have same: "m\<lparr>content := content m @ []\<rparr> = m" for m :: message
    by simp
  have "(case p_tool_calls p of
           Some tcs \<Rightarrow> update_object r (\<lambda>m. m\<lparr>tool_calls := Some tcs\<rparr>)
              (if p_content p \<noteq> []
               then update_object r (\<lambda>m. m\<lparr>content := content m @ p_content p\<rparr>)
                      (enqueue (p_content p) s)
               else s)
         | None \<Rightarrow>
              (if p_content p \<noteq> []
               then update_object r (\<lambda>m. m\<lparr>content := content m @ p_content p\<rparr>)
                      (enqueue (p_content p) s)
               else s)) =
        s\<lparr>objs := (objs s)(r := absorb p (objs s r)),
          trace := trace s @ (if p_content p \<noteq> [] then [Enqueue (p_content p)] else [])\<rparr>"
    by (rule state.equality)
       (auto simp: update_object_def enqueue_def absorb_def same split: option.splits)
  then show ?thesis
    by (simp add: Let_def)
qed

lemma read_stream_fields:
  "objs (read_stream r parts s) = (objs s)(r := accumulate parts (objs s r))"
  "arrs (read_stream r parts s) = arrs s"
  "nxt (read_stream r parts s) = nxt s"
  "trace (read_stream r parts s) = trace s @ map Enqueue (text_chunks parts)"
proof (induction parts arbitrary: s)
  case Nil
  {
    case 1 show ?case by (simp add: accumulate_Nil)
  next
    case 2 show ?case by simp
  next
    case 3 show ?case by simp
  next
    case 4 show ?case by (simp add: text_chunks_def)
  }
next
  case (Cons p parts)
  {
    case 1 show ?case
      unfolding read_stream_Cons Cons.IH by (simp add: accumulate_Cons)
  next
    case 2 show ?case
      unfolding read_stream_Cons Cons.IH by simp
  next
    case 3 show ?case
      unfolding read_stream_Cons Cons.IH by simp
  next
    case 4 show ?case
      unfolding read_stream_Cons Cons.IH by (simp add: text_chunks_Cons)
  }
qed

lemma accumulate_fresh:
  "accumulate parts \<lparr>role = None, content = [], tool_calls = Some [], msg_name = None\<rparr> =
     (answer_message parts)\<lparr>tool_calls :=
        (case announced parts of Some tcs \<Rightarrow> Some tcs | None \<Rightarrow> Some [])\<rparr>"
  by (simp add: accumulate_def answer_message_def split: option.splits)

lemma answer_message_tool_calls:
  "(case announced parts of Some tcs \<Rightarrow> Some tcs | None \<Rightarrow> Some []) = Some (announced_tool_calls parts)"
  by (simp add: announced_tool_calls_def split: option.splits)

lemma answered_fields:
  "objs (answered allTools a parts s) = (objs s)(nxt s := answer_message parts)"
  "arrs (answered allTools a parts s) = (arrs s)(a := arrs s a @ [nxt s])"
  "nxt (answered allTools a parts s) = Suc (nxt s)"
  "trace (answered allTools a parts s) =
     trace s @ [ModelCall (conversation s a) (tools_argument allTools)]
     @ map Enqueue (text_chunks parts) @ [Push (answer_message parts)]"
  by (simp_all add: answered_def array_push_def read_stream_fields new_object_def
        accumulate_fresh answer_message_tool_calls answer_message_def)

lemma annotated_fields:
  "objs (annotated W allTools a parts s) =
     (objs s)(nxt s := (answer_message parts)
        \<lparr>content := streamed_text parts @ toolCallInfo W (announced_tool_calls parts)\<rparr>)"
  "arrs (annotated W allTools a parts s) = (arrs s)(a := arrs s a @ [nxt s])"
  "nxt (annotated W allTools a parts s) = Suc (nxt s)"
  "trace (annotated W allTools a parts s) =
     trace s @ [ModelCall (conversation s a) (tools_argument allTools)]
     @ map Enqueue (text_chunks parts) @ [Push (answer_message parts)]
     @ [Enqueue (toolCallInfo W (announced_tool_calls parts))]"
  by (simp_all add: annotated_def update_object_def enqueue_def answered_fields
        answer_message_def)

lemma chat_iteration_answer:
  assumes "ollama_chat W (trace s) (conversation s a) (tools_argument allTools) = Inr (parts, None)"
  shows "chat_iteration W m cs allTools a s =
     (if announced_tool_calls parts = [] then (Break, answered allTools a parts s)
      else (case executeToolCalls W m cs (announced_tool_calls parts) a True
                   (annotated W allTools a parts s) of
              (Some e, s7) \<Rightarrow> (Abort e, s7)
            | (None, s7) \<Rightarrow> (Continue, s7)))"
proof -
  have tc: "tool_calls (objs (answered allTools a parts s) (nxt s)) = Some (announced_tool_calls parts)"
    by (simp add: answered_fields answer_message_def)
  show ?thesis
    unfolding chat_iteration_def Let_def assms
    using tc
    by (simp add: new_object_def answered_def annotated_def)
qed

subsection \<open>The caller's messages\<close>

lemma chat_iteration_backend_fails:
  assumes "ollama_chat W (trace s) (conversation s a) (tools_argument allTools) = Inl msg"
  shows "chat_iteration W m cs allTools a s =
     (Abort (Thrown msg),
      s\<lparr>trace := trace s @ [ModelCall (conversation s a) (tools_argument allTools)]\<rparr>)"
  unfolding chat_iteration_def Let_def assms by simp

lemma chat_iteration_stream_fails:
  assumes "ollama_chat W (trace s) (conversation s a) (tools_argument allTools) =
             Inr (parts, Some msg)"
  shows "chat_iteration W m cs allTools a s =
     (Abort (Thrown msg),
      read_stream (nxt s) parts
        (snd (new_object \<lparr>role = None, content = [], tool_calls = Some [], msg_name = None\<rparr>
                (s\<lparr>trace := trace s @ [ModelCall (conversation s a) (tools_argument allTools)]\<rparr>))))"
  unfolding chat_iteration_def Let_def assms by (simp add: new_object_def)

lemma preserved_answered: "n \<le> nxt s \<Longrightarrow> preserved n a s (answered allTools a parts s)"
  by (simp add: preserved_def answered_fields)

lemma preserved_annotated: "n \<le> nxt s \<Longrightarrow> preserved n a s (annotated W allTools a parts s)"
  by (simp add: preserved_def annotated_fields)

lemma preserved_chat_iteration:
  assumes "n \<le> nxt s"
  shows "preserved n a s (snd (chat_iteration W m cs allTools a s))"
proof (cases "ollama_chat W (trace s) (conversation s a) (tools_argument allTools)")
  case (Inl msg)
  then show ?thesis
    by (simp add: chat_iteration_backend_fails preserved_trace)
next
  case (Inr answer)
  obtain parts failure where answer: "answer = (parts, failure)"
    by (cases answer)
  show ?thesis
  proof (cases failure)
    case (Some msg)
    then show ?thesis
      using Inr answer assms
      by (simp add: chat_iteration_stream_fails preserved_def read_stream_fields new_object_def)
  next
    case None
    note it = chat_iteration_answer [OF Inr [unfolded answer None], of m cs]
    show ?thesis
    proof (cases "announced_tool_calls parts = []")
      case True
      then show ?thesis
        using it assms by (simp add: preserved_answered)
    next
      case False
      have 1: "preserved n a s (annotated W allTools a parts s)"
        using assms by (rule preserved_annotated)
      have "n \<le> nxt (annotated W allTools a parts s)"
        using assms by (simp add: annotated_fields)
      then have 2: "preserved n a (annotated W allTools a parts s)
          (snd (executeToolCalls W m cs (announced_tool_calls parts) a True
                  (annotated W allTools a parts s)))"
        by (rule preserved_executeToolCalls)
      have "snd (chat_iteration W m cs allTools a s) =
              snd (executeToolCalls W m cs (announced_tool_calls parts) a True
                     (annotated W allTools a parts s))"
        using it False by (simp split: prod.splits option.splits)
      then show ?thesis
        using preserved_trans [OF 1 2] by simp
    qed
  qed
qed

lemma chat_loop_done:
  "\<not> i < maxIterations \<Longrightarrow> chat_loop W m cs allTools a i s = (None, s)"
  by (simp add: chat_loop.simps)

lemma chat_loop_step:
  "i < maxIterations \<Longrightarrow>
   chat_loop W m cs allTools a i s =
     (case chat_iteration W m cs allTools a s of
        (Continue, s') \<Rightarrow> chat_loop W m cs allTools a (i + 1) s'
      | (Break, s') \<Rightarrow> (None, s')
      | (Abort e, s') \<Rightarrow> (Some e, s'))"
  by (subst chat_loop.simps) simp

lemma preserved_chat_loop:
  "n \<le> nxt s \<Longrightarrow> preserved n a s (snd (chat_loop W m cs allTools a i s))"
proof (induction W m cs allTools a i s rule: chat_loop.induct)
  case (1 W m cs allTools a i s)
  show ?case
  proof (cases "i < maxIterations")
    case False
    then show ?thesis by (simp add: chat_loop_done preserved_refl)
  next
    case True
    obtain out s' where step: "chat_iteration W m cs allTools a s = (out, s')"
      by (cases "chat_iteration W m cs allTools a s")
    have p: "preserved n a s s'"
      using preserved_chat_iteration [OF "1.prems", of a W m cs allTools] step by simp
    show ?thesis
    proof (cases out)
      case Continue
      have "n \<le> nxt s'"
        using p "1.prems" by (simp add: preserved_def)
      then have "preserved n a s' (snd (chat_loop W m cs allTools a (i + 1) s'))"
        using "1.IH" True step Continue by simp
      then show ?thesis
        using step Continue preserved_trans [OF p] by (simp add: chat_loop_step [OF True])
    next
      case Break
      then show ?thesis using step p by (simp add: chat_loop_step [OF True])
    next
      case (Abort e)
      then show ?thesis using step p by (simp add: chat_loop_step [OF True])
    qed
  qed
qed

lemma snd_chat:
  "snd (chat W self messages s) =
     snd (chat_loop W (mcpToolMap self) (clients self) (getOllamaTools (mcpToolMap self)) (nxt s) 0
            (snd (new_array (arrs s messages) s)))"
  by (simp add: chat_def Let_def new_array_def split: prod.splits option.splits)

lemmas run_defs =
  chat_def chat_loop.simps chat_iteration_def Let_def new_array_def new_object_def
  array_push_def enqueue_def update_object_def conversation_def executeToolCall_def
  try_tool_def call_client_def push_message_def calling_def model_calls_def
  maxIterations_def getOllamaTools_def tools_argument_def entry_of_def tool_message_def
  W_once_def W_always_def W0_def client_w_def s0_def weather_tool_def user_message_def
  hello_parts_def
  weather_call_def unknown_call_def malformed_call_def failing_call_def

text \<open>
  Claim C10. \<^verbatim>\<open>chat\<close> works on a copy of the caller's array: when the run is over, the
  caller's array holds the references it held before, every object allocated before the
  call is unchanged, and so the caller's list reads as the same messages. (The store is
  taken well formed: the caller's array is allocated, and for the last part so are the
  objects it refers to.)
\<close>

theorem chat_leaves_callers_messages:
  assumes "messages < nxt s"
  shows "arrs (snd (chat W self messages s)) messages = arrs s messages
    \<and> (\<forall>r < nxt s. objs (snd (chat W self messages s)) r = objs s r)
    \<and> (refs_allocated s messages \<longrightarrow>
         conversation (snd (chat W self messages s)) messages = conversation s messages)"
proof -
  let ?s0 = "snd (new_array (arrs s messages) s)"
  let ?s' = "snd (chat W self messages s)"
  have "nxt s \<le> nxt ?s0"
    by (simp add: new_array_def)
  then have "preserved (nxt s) (nxt s) ?s0 ?s'"
    unfolding snd_chat by (rule preserved_chat_loop)
  then have arrs: "arrs ?s' messages = arrs s messages"
    and objs: "\<forall>r < nxt s. objs ?s' r = objs s r"
    using assms by (simp_all add: preserved_def new_array_def)
  have "conversation ?s' messages = conversation s messages" if "refs_allocated s messages"
    using that arrs objs by (simp add: conversation_def refs_allocated_def)
  then show ?thesis
    using arrs objs by blast
qed


theorem chat_leaves_callers_messages_witness:
  "0 < nxt s0 \<and> refs_allocated s0 0
   \<and> arrs (snd (chat W_once client_w 0 s0)) 0 = [1]
   \<and> objs (snd (chat W_once client_w 0 s0)) 1 = user_message
   \<and> conversation (snd (chat W_once client_w 0 s0)) 0 = [user_message]
   \<and> length (conversation (snd (chat W_once client_w 0 s0)) 2) = 4"
proof -
  have h: "0 < nxt s0"
    by (simp add: s0_def)
  have r: "refs_allocated s0 0"
    by (simp add: refs_allocated_def s0_def)
  note t = chat_leaves_callers_messages [OF h, of W_once client_w]
  have 1: "arrs (snd (chat W_once client_w 0 s0)) 0 = [1]"
    using t by (simp add: s0_def)
  have 2: "objs (snd (chat W_once client_w 0 s0)) 1 = user_message"
    using t by (simp add: s0_def)
  have 3: "conversation (snd (chat W_once client_w 0 s0)) 0 = [user_message]"
    using t r by (simp add: conversation_def s0_def)
  have 4: "length (conversation (snd (chat W_once client_w 0 s0)) 2) = 4"
    by (simp add: run_defs)
  show ?thesis
    using h r 1 2 3 4 by simp
qed

subsection \<open>One turn of the loop\<close>

lemma try_tool_fields:
  "objs (try_tool W cs t f p a ctl s) = (objs s)(nxt s := tool_reply W f (dispatch W cs t f p (trace s)))"
  "arrs (try_tool W cs t f p a ctl s) = (arrs s)(a := arrs s a @ [nxt s])"
  "nxt (try_tool W cs t f p a ctl s) = Suc (nxt s)"
  "trace (try_tool W cs t f p a ctl s) =
     trace s @ dispatch_events cs t f p
     @ (if ctl then [Enqueue (tool_annotation W f (dispatch W cs t f p (trace s)))] else [])
     @ [Push (tool_reply W f (dispatch W cs t f p (trace s)))]"
  by (simp_all add: try_tool_def call_client_def push_message_def new_object_def array_push_def
        enqueue_def dispatch_def dispatch_events_def tool_reply_def tool_annotation_def
        split: sum.splits)

lemma conversation_push:
  assumes "refs_allocated s a"
    and "arrs s' a = arrs s a @ [nxt s]"
    and "objs s' = (objs s)(nxt s := msg)"
    and "nxt s' = Suc (nxt s)"
  shows "conversation s' a = conversation s a @ [msg]" and "refs_allocated s' a"
proof -
  have "map ((objs s)(nxt s := msg)) (arrs s a) = map (objs s) (arrs s a)"
    using assms(1) by (auto simp: refs_allocated_def)
  then show "conversation s' a = conversation s a @ [msg]"
    using assms by (simp add: conversation_def)
  show "refs_allocated s' a"
    using assms by (auto simp: refs_allocated_def less_Suc_eq)
qed

lemma conversation_new_array:
  "conversation (snd (new_array (arrs s a) s)) (nxt s) = conversation s a"
  "trace (snd (new_array (arrs s a) s)) = trace s"
  "nxt (snd (new_array (arrs s a) s)) = Suc (nxt s)"
  "refs_allocated s a \<Longrightarrow> refs_allocated (snd (new_array (arrs s a) s)) (nxt s)"
  by (auto simp: conversation_def new_array_def refs_allocated_def less_Suc_eq)

lemma chat_unfold:
  "chat W self messages s =
     (case chat_loop W (mcpToolMap self) (clients self) (getOllamaTools (mcpToolMap self)) (nxt s) 0
             (snd (new_array (arrs s messages) s)) of
        (None, s') \<Rightarrow> (Closed, s')
      | (Some e, s') \<Rightarrow> (Errored e, s'))"
  by (simp add: chat_def Let_def new_array_def)

lemma model_calls_simps:
  "model_calls [] = 0"
  "model_calls (ModelCall msgs tools # tr) = Suc (model_calls tr)"
  "model_calls (ToolCall srv f p # tr) = model_calls tr"
  "model_calls (Enqueue c # tr) = model_calls tr"
  "model_calls (Push msg # tr) = model_calls tr"
  by (simp_all add: model_calls_def)

lemma model_calls_append: "model_calls (xs @ ys) = model_calls xs + model_calls ys"
  by (simp add: model_calls_def)

lemma model_calls_Enqueues: "model_calls (map Enqueue cs) = 0"
  by (simp add: model_calls_def filter_empty_conv)

lemma enqueued_simps:
  "enqueued [] = []"
  "enqueued (ModelCall msgs tools # tr) = enqueued tr"
  "enqueued (ToolCall srv f p # tr) = enqueued tr"
  "enqueued (Enqueue c # tr) = c # enqueued tr"
  "enqueued (Push msg # tr) = enqueued tr"
  by (simp_all add: enqueued_def)

lemma enqueued_append: "enqueued (xs @ ys) = enqueued xs @ enqueued ys"
  by (simp add: enqueued_def)

lemma enqueued_Enqueues: "enqueued (map Enqueue cs) = cs"
  by (induction cs) (simp_all add: enqueued_simps)

text \<open>
  An answer of the model that announces no tool call. When it is the first answer, the
  stream is closed after that one call of the model; what was enqueued is exactly the
  answer's text chunks, with no annotation; and the conversation has grown by exactly one
  message, the accumulated answer. In a later turn likewise, such an answer ends the loop
  without an error, after that one call of the model and with only the answer's text
  chunks enqueued.
\<close>

lemma chat_without_tool_calls:
  assumes "ollama_chat W (trace s) (conversation s messages)
             (tools_argument (getOllamaTools (mcpToolMap self))) = Inr (parts, None)"
    and "announced_tool_calls parts = []"
    and "refs_allocated s messages"
  shows "fst (chat W self messages s) = Closed
    \<and> enqueued (trace (snd (chat W self messages s))) = enqueued (trace s) @ text_chunks parts
    \<and> conversation (snd (chat W self messages s)) (nxt s) =
        conversation s messages
        @ [\<lparr>role = None, content = streamed_text parts, tool_calls = Some [], msg_name = None\<rparr>]
    \<and> model_calls (trace (snd (chat W self messages s))) = model_calls (trace s) + 1
    \<and> (i < maxIterations
        \<and> ollama_chat W (trace s') (conversation s' a) (tools_argument allTools) = Inr (parts', None)
        \<and> announced_tool_calls parts' = [] \<longrightarrow>
        fst (chat_loop W m cs allTools a i s') = None
        \<and> enqueued (trace (snd (chat_loop W m cs allTools a i s'))) =
            enqueued (trace s') @ text_chunks parts'
        \<and> model_calls (trace (snd (chat_loop W m cs allTools a i s'))) =
            model_calls (trace s') + 1)"
proof -
  let ?tools = "getOllamaTools (mcpToolMap self)"
  let ?s0 = "snd (new_array (arrs s messages) s)"
  let ?s1 = "answered ?tools (nxt s) parts ?s0"
  have "ollama_chat W (trace ?s0) (conversation ?s0 (nxt s)) (tools_argument ?tools)
          = Inr (parts, None)"
    using assms(1) by (simp add: conversation_new_array)
  then have "chat_iteration W (mcpToolMap self) (clients self) ?tools (nxt s) ?s0 = (Break, ?s1)"
    using assms(2) by (simp add: chat_iteration_answer)
  then have run: "chat W self messages s = (Closed, ?s1)"
    by (simp add: chat_unfold chat_loop.simps maxIterations_def)
  have conv: "conversation ?s1 (nxt s) = conversation ?s0 (nxt s) @ [answer_message parts]"
    by (rule conversation_push [of ?s0])
       (simp_all add: conversation_new_array assms(3) answered_fields)
  have first: "fst (chat W self messages s) = Closed
    \<and> enqueued (trace (snd (chat W self messages s))) = enqueued (trace s) @ text_chunks parts
    \<and> conversation (snd (chat W self messages s)) (nxt s) =
        conversation s messages
        @ [\<lparr>role = None, content = streamed_text parts, tool_calls = Some [], msg_name = None\<rparr>]
    \<and> model_calls (trace (snd (chat W self messages s))) = model_calls (trace s) + 1"
    using assms(2)
    by (simp add: run conv conversation_new_array answered_fields answer_message_def
          enqueued_append enqueued_Enqueues enqueued_simps model_calls_append
          model_calls_Enqueues model_calls_simps)
  have later: "fst (chat_loop W m cs allTools a i s') = None
        \<and> enqueued (trace (snd (chat_loop W m cs allTools a i s'))) =
            enqueued (trace s') @ text_chunks parts'
        \<and> model_calls (trace (snd (chat_loop W m cs allTools a i s'))) =
            model_calls (trace s') + 1"
    if "i < maxIterations"
      and "ollama_chat W (trace s') (conversation s' a) (tools_argument allTools) = Inr (parts', None)"
      and "announced_tool_calls parts' = []"
  proof -
    have "chat_loop W m cs allTools a i s' = (None, answered allTools a parts' s')"
      using chat_iteration_answer [OF that(2), of m cs] that(3)
      by (simp add: chat_loop_step [OF that(1)])
    then show ?thesis
      by (simp add: answered_fields enqueued_append enqueued_Enqueues enqueued_simps
            model_calls_append model_calls_Enqueues model_calls_simps)
  qed
  show ?thesis
    using first later by blast
qed

text \<open>
  Claim C4, on the caller's one user message and a model that answers \<^verbatim>\<open>Hello\<close> in three
  chunks (the second one empty) without announcing a tool call. The stream is closed
  after one call of the model, the two text chunks are what was enqueued, and exactly one
  message is appended; but that message has no role: line 293 builds it as
  \<^verbatim>\<open>{ content: "", tool_calls: [] }\<close>, so it is not an assistant message.
\<close>

theorem no_tool_calls_message_without_role:
  "fst (chat W0 client_w 0 s0) = Closed
   \<and> enqueued (trace (snd (chat W0 client_w 0 s0))) = [''Hel'', ''lo'']
   \<and> model_calls (trace (snd (chat W0 client_w 0 s0))) = 1
   \<and> conversation s0 0 = [user_message]
   \<and> conversation (snd (chat W0 client_w 0 s0)) 2 =
        [user_message,
         \<lparr>role = None, content = ''Hello'', tool_calls = Some [], msg_name = None\<rparr>]
   \<and> map role (conversation (snd (chat W0 client_w 0 s0)) 2) \<noteq>
        [Some ''user'', Some ''assistant'']"
proof -
  have a: "ollama_chat W0 (trace s0) (conversation s0 0)
      (tools_argument (getOllamaTools (mcpToolMap client_w))) = Inr (hello_parts, None)"
    by (simp add: W0_def)
  have b: "announced_tool_calls hello_parts = []"
    by (simp add: announced_tool_calls_def hello_parts_def)
  have c: "refs_allocated s0 0"
    by (simp add: refs_allocated_def s0_def)
  have d: "text_chunks hello_parts = [''Hel'', ''lo'']" "streamed_text hello_parts = ''Hello''"
    by (simp_all add: text_chunks_def streamed_text_def hello_parts_def)
  have e: "enqueued (trace s0) = []" "conversation s0 0 = [user_message]"
    "model_calls (trace s0) = 0" "nxt s0 = 2"
    by (simp_all add: s0_def enqueued_simps conversation_def model_calls_simps)
  note t = chat_without_tool_calls [OF a b c]
  have conv: "conversation (snd (chat W0 client_w 0 s0)) 2 =
        [user_message,
         \<lparr>role = None, content = ''Hello'', tool_calls = Some [], msg_name = None\<rparr>]"
    using t by (simp add: d e)
  have "fst (chat W0 client_w 0 s0) = Closed
   \<and> enqueued (trace (snd (chat W0 client_w 0 s0))) = [''Hel'', ''lo'']
   \<and> model_calls (trace (snd (chat W0 client_w 0 s0))) = 1"
    using t by (simp add: d e)
  then show ?thesis
    by (simp add: conv e user_message_def)
qed

subsection \<open>Tool execution\<close>

lemma executeToolCall_ok:
  assumes "call_ok W m tc"
  shows "\<exists>t p. decode_arguments W (function_arguments tc) = Inr p
    \<and> map_get m (JStr (function_name tc)) = Some t
    \<and> (\<forall>cs a ctl s. executeToolCall W m cs tc a ctl s =
           (None, try_tool W cs t (function_name tc) p a ctl s))"
  using assms
  by (auto simp: call_ok_def executeToolCall_def Let_def split: sum.splits option.splits)

lemma executeToolCall_fails:
  "\<not> call_ok W m tc \<Longrightarrow> \<exists>e. executeToolCall W m cs tc a ctl s = (Some e, s)"
  by (auto simp: call_ok_def executeToolCall_def Let_def split: sum.splits option.splits)

lemma fst_executeToolCall: "fst (executeToolCall W m cs tc a ctl s) = None \<longleftrightarrow> call_ok W m tc"
  by (auto simp: call_ok_def executeToolCall_def Let_def split: sum.splits option.splits)

lemma model_calls_dispatch_events: "model_calls (dispatch_events cs t f p) = 0"
  by (simp add: dispatch_events_def model_calls_simps)

lemma model_calls_try_tool:
  "model_calls (trace (try_tool W cs t f p a ctl s)) = model_calls (trace s)"
  by (simp add: try_tool_fields model_calls_append model_calls_simps model_calls_dispatch_events)

lemma model_calls_executeToolCall:
  "model_calls (trace (snd (executeToolCall W m cs tc a ctl s))) = model_calls (trace s)"
  by (simp add: executeToolCall_def Let_def model_calls_try_tool split: sum.splits option.splits)

lemma model_calls_executeToolCalls:
  "model_calls (trace (snd (executeToolCalls W m cs tcs a ctl s))) = model_calls (trace s)"
proof (induction tcs arbitrary: s)
  case Nil
  show ?case by simp
next
  case (Cons tc tcs)
  obtain r s' where step: "executeToolCall W m cs tc a ctl s = (r, s')"
    by (cases "executeToolCall W m cs tc a ctl s")
  then have "model_calls (trace s') = model_calls (trace s)"
    using model_calls_executeToolCall [of W m cs tc a ctl s] by simp
  then show ?case
    using step Cons.IH [of s'] by (cases r) simp_all
qed

lemma executeToolCalls_ok:
  "\<forall>tc \<in> set tcs. call_ok W m tc \<Longrightarrow> fst (executeToolCalls W m cs tcs a ctl s) = None"
proof (induction tcs arbitrary: s)
  case Nil
  show ?case by simp
next
  case (Cons tc tcs)
  from Cons.prems have "call_ok W m tc" by simp
  then obtain t p where
    "executeToolCall W m cs tc a ctl s = (None, try_tool W cs t (function_name tc) p a ctl s)"
    using executeToolCall_ok by blast
  then show ?case
    using Cons by simp
qed

lemma executeToolCalls_append:
  "executeToolCalls W m cs (pre @ post) a ctl s =
     (case executeToolCalls W m cs pre a ctl s of
        (Some e, s') \<Rightarrow> (Some e, s')
      | (None, s') \<Rightarrow> executeToolCalls W m cs post a ctl s')"
  by (induction pre arbitrary: s) (auto split: prod.splits option.splits)

lemma executeToolCalls_first_failure:
  assumes "\<forall>p \<in> set pre. call_ok W m p"
    and "\<And>s'. executeToolCall W m cs tc a ctl s' = (Some e, s')"
  shows "executeToolCalls W m cs (pre @ tc # post) a ctl s =
           (Some e, snd (executeToolCalls W m cs pre a ctl s))"
proof -
  obtain s' where pre: "executeToolCalls W m cs pre a ctl s = (None, s')"
    using executeToolCalls_ok [OF assms(1), of cs a ctl s]
    by (cases "executeToolCalls W m cs pre a ctl s") simp
  show ?thesis
    by (simp add: executeToolCalls_append pre assms(2))
qed

lemma executeToolCalls_some_failure:
  "tc \<in> set tcs \<Longrightarrow> \<not> call_ok W m tc \<Longrightarrow> fst (executeToolCalls W m cs tcs a ctl s) \<noteq> None"
proof (induction tcs arbitrary: s)
  case Nil
  then show ?case by simp
next
  case (Cons x tcs)
  obtain r s' where step: "executeToolCall W m cs x a ctl s = (r, s')"
    by (cases "executeToolCall W m cs x a ctl s")
  show ?case
  proof (cases r)
    case (Some e)
    then show ?thesis using step by simp
  next
    case None
    then have "call_ok W m x"
      using step fst_executeToolCall [of W m cs x a ctl s] by simp
    then have "tc \<in> set tcs"
      using Cons.prems by auto
    then show ?thesis
      using Cons.IH Cons.prems(2) step None by simp
  qed
qed

lemma executeToolCalls_stops:
  assumes "\<not> call_ok W m tc"
  shows "fst (executeToolCalls W m cs (pre @ tc # post) a ctl s) \<noteq> None"
    and "snd (executeToolCalls W m cs (pre @ tc # post) a ctl s) =
           snd (executeToolCalls W m cs pre a ctl s)"
proof -
  obtain r s1 where pre: "executeToolCalls W m cs pre a ctl s = (r, s1)"
    by (cases "executeToolCalls W m cs pre a ctl s")
  have "fst (executeToolCalls W m cs (pre @ tc # post) a ctl s) \<noteq> None
      \<and> snd (executeToolCalls W m cs (pre @ tc # post) a ctl s) = s1"
  proof (cases r)
    case (Some e)
    then show ?thesis by (simp add: executeToolCalls_append pre)
  next
    case None
    obtain e where "executeToolCall W m cs tc a ctl s1 = (Some e, s1)"
      using executeToolCall_fails [OF assms] by blast
    then show ?thesis using None by (simp add: executeToolCalls_append pre)
  qed
  then show "fst (executeToolCalls W m cs (pre @ tc # post) a ctl s) \<noteq> None"
    and "snd (executeToolCalls W m cs (pre @ tc # post) a ctl s) =
           snd (executeToolCalls W m cs pre a ctl s)"
    by (simp_all add: pre)
qed

subsection \<open>The iteration bound\<close>

lemma chat_iteration_continue:
  assumes "always_calls_tools W m"
  shows "\<exists>s'. chat_iteration W m cs allTools a s = (Continue, s')
              \<and> model_calls (trace s') = Suc (model_calls (trace s))"
proof -
  from assms obtain parts where
    answer: "ollama_chat W (trace s) (conversation s a) (tools_argument allTools) = Inr (parts, None)"
    and some: "announced_tool_calls parts \<noteq> []"
    and ok: "\<forall>tc \<in> set (announced_tool_calls parts). call_ok W m tc"
    unfolding always_calls_tools_def by blast
  let ?run = "executeToolCalls W m cs (announced_tool_calls parts) a True
                (annotated W allTools a parts s)"
  have "fst ?run = None"
    using ok by (rule executeToolCalls_ok)
  then obtain s7 where run: "?run = (None, s7)"
    by (cases ?run) simp
  have "chat_iteration W m cs allTools a s = (Continue, s7)"
    using chat_iteration_answer [OF answer, of m cs] some by (simp add: run)
  moreover have "model_calls (trace (snd ?run)) = Suc (model_calls (trace s))"
    by (simp add: model_calls_executeToolCalls annotated_fields model_calls_append
          model_calls_simps model_calls_Enqueues)
  ultimately show ?thesis by (simp add: run)
qed

lemma chat_loop_bound:
  assumes "always_calls_tools W m"
  shows "fst (chat_loop W m cs allTools a i s) = None
    \<and> model_calls (trace (snd (chat_loop W m cs allTools a i s))) =
        model_calls (trace s) + (maxIterations - i)"
  using assms
proof (induction W m cs allTools a i s rule: chat_loop.induct)
  case (1 W m cs allTools a i s)
  show ?case
  proof (cases "i < maxIterations")
    case False
    then show ?thesis by (simp add: chat_loop_done)
  next
    case True
    from chat_iteration_continue [OF "1.prems"] obtain s' where
      step: "chat_iteration W m cs allTools a s = (Continue, s')"
      and calls: "model_calls (trace s') = Suc (model_calls (trace s))"
      by blast
    have "fst (chat_loop W m cs allTools a (i + 1) s') = None
      \<and> model_calls (trace (snd (chat_loop W m cs allTools a (i + 1) s'))) =
          model_calls (trace s') + (maxIterations - (i + 1))"
      using "1.IH" [OF True step [symmetric]] "1.prems" by simp
    moreover have "chat_loop W m cs allTools a i s = chat_loop W m cs allTools a (i + 1) s'"
      using step by (simp add: chat_loop_step [OF True])
    ultimately show ?thesis
      using calls True by simp
  qed
qed

text \<open>
  Claim C3, as amended. When every answer of the model announces at least one tool call,
  and only tool calls whose name is in the catalog and whose arguments decode, the loop
  calls the model exactly ten times (\<^verbatim>\<open>maxIterations\<close>) and closes the stream without an
  error, whatever the tools return or throw.
\<close>

theorem always_tool_calls_ten_iterations:
  assumes "always_calls_tools W (mcpToolMap self)"
  shows "fst (chat W self messages s) = Closed
    \<and> model_calls (trace (snd (chat W self messages s))) = model_calls (trace s) + 10"
proof -
  let ?loop = "chat_loop W (mcpToolMap self) (clients self) (getOllamaTools (mcpToolMap self))
                 (nxt s) 0 (snd (new_array (arrs s messages) s))"
  have "fst ?loop = None"
    and "model_calls (trace (snd ?loop)) = model_calls (trace s) + 10"
    using chat_loop_bound [OF assms, of "clients self" "getOllamaTools (mcpToolMap self)" "nxt s" 0
            "snd (new_array (arrs s messages) s)"]
    by (simp_all add: conversation_new_array maxIterations_def)
  then show ?thesis
    by (cases ?loop) (simp add: chat_unfold)
qed

theorem always_tool_calls_ten_iterations_witness:
  "always_calls_tools (W_always [weather_call]) (mcpToolMap client_w)
   \<and> fst (chat (W_always [weather_call]) client_w 0 s0) = Closed
   \<and> model_calls (trace (snd (chat (W_always [weather_call]) client_w 0 s0))) = 10"
proof -
  have h: "always_calls_tools (W_always [weather_call]) (mcpToolMap client_w)"
    by (simp add: always_calls_tools_def W_always_def calling_def announced_tool_calls_def
          call_ok_def weather_call_def W0_def client_w_def)
  have "model_calls (trace s0) = 0"
    by (simp add: s0_def model_calls_simps)
  then show ?thesis
    using always_tool_calls_ten_iterations [OF h, of 0 s0] h by simp
qed

text \<open>
  Claim C3 as stated fails: a model whose every answer announces one tool call, of a
  tool that is in the catalog, but with arguments that are not JSON, is called once, and
  the stream ends with the parser's error.
\<close>

theorem resolvable_tool_calls_counterexample:
  "always_emits_resolvable (W_always [malformed_call]) (mcpToolMap client_w)
   \<and> fst (chat (W_always [malformed_call]) client_w 0 s0) =
       Errored (SyntaxError ''Unexpected token'')
   \<and> model_calls (trace (snd (chat (W_always [malformed_call]) client_w 0 s0))) = 1"
proof -
  have "always_emits_resolvable (W_always [malformed_call]) (mcpToolMap client_w)"
    by (simp add: always_emits_resolvable_def W_always_def calling_def announced_tool_calls_def
          malformed_call_def client_w_def)
  moreover have "fst (chat (W_always [malformed_call]) client_w 0 s0) =
       Errored (SyntaxError ''Unexpected token'')"
    by (simp add: run_defs json_text_a1_def)
  moreover have "model_calls (trace (snd (chat (W_always [malformed_call]) client_w 0 s0))) = 1"
    by (simp add: run_defs json_text_a1_def)
  ultimately show ?thesis by simp
qed

subsection \<open>Exceptions that leave tool execution\<close>

lemma calls_of_simps:
  "calls_of f [] = []"
  "calls_of f (ModelCall msgs tools # tr) = calls_of f tr"
  "calls_of f (ToolCall srv g p # tr) = (if g = f then ToolCall srv g p # calls_of f tr else calls_of f tr)"
  "calls_of f (Enqueue c # tr) = calls_of f tr"
  "calls_of f (Push msg # tr) = calls_of f tr"
  by (simp_all add: calls_of_def)

lemma calls_of_append: "calls_of f (xs @ ys) = calls_of f xs @ calls_of f ys"
  by (simp add: calls_of_def)

lemma calls_of_Enqueues: "calls_of f (map Enqueue cs) = []"
  by (induction cs) (simp_all add: calls_of_simps)

lemma calls_of_try_tool:
  "g \<noteq> f \<Longrightarrow> calls_of f (trace (try_tool W cs t g p a ctl s)) = calls_of f (trace s)"
  by (simp add: try_tool_fields calls_of_append calls_of_simps dispatch_events_def)

lemma calls_of_executeToolCall:
  assumes "map_get m (JStr f) = None"
  shows "calls_of f (trace (snd (executeToolCall W m cs tc a ctl s))) = calls_of f (trace s)"
proof (cases "call_ok W m tc")
  case True
  then obtain t p where t: "map_get m (JStr (function_name tc)) = Some t"
    and run: "executeToolCall W m cs tc a ctl s =
                (None, try_tool W cs t (function_name tc) p a ctl s)"
    using executeToolCall_ok by blast
  from t assms have "function_name tc \<noteq> f" by auto
  then show ?thesis
    by (simp add: run calls_of_try_tool)
next
  case False
  then show ?thesis
    using executeToolCall_fails [of W m tc cs a ctl s] by auto
qed

lemma calls_of_executeToolCalls:
  assumes "map_get m (JStr f) = None"
  shows "calls_of f (trace (snd (executeToolCalls W m cs tcs a ctl s))) = calls_of f (trace s)"
proof (induction tcs arbitrary: s)
  case Nil
  show ?case by simp
next
  case (Cons tc tcs)
  obtain r s' where step: "executeToolCall W m cs tc a ctl s = (r, s')"
    by (cases "executeToolCall W m cs tc a ctl s")
  then have "calls_of f (trace s') = calls_of f (trace s)"
    using calls_of_executeToolCall [OF assms, of W cs tc a ctl s] by simp
  then show ?case
    using step Cons.IH [of s'] by (cases r) simp_all
qed

lemma calls_of_chat_iteration:
  assumes "map_get m (JStr f) = None"
  shows "calls_of f (trace (snd (chat_iteration W m cs allTools a s))) = calls_of f (trace s)"
proof (cases "ollama_chat W (trace s) (conversation s a) (tools_argument allTools)")
  case (Inl msg)
  then show ?thesis
    by (simp add: chat_iteration_backend_fails calls_of_append calls_of_simps)
next
  case (Inr answer)
  obtain parts failure where answer: "answer = (parts, failure)"
    by (cases answer)
  show ?thesis
  proof (cases failure)
    case (Some msg)
    then show ?thesis
      using Inr answer
      by (simp add: chat_iteration_stream_fails read_stream_fields new_object_def
            calls_of_append calls_of_simps calls_of_Enqueues)
  next
    case None
    note it = chat_iteration_answer [OF Inr [unfolded answer None], of m cs]
    show ?thesis
    proof (cases "announced_tool_calls parts = []")
      case True
      then show ?thesis
        using it
        by (simp add: answered_fields calls_of_append calls_of_simps calls_of_Enqueues)
    next
      case False
      have "snd (chat_iteration W m cs allTools a s) =
              snd (executeToolCalls W m cs (announced_tool_calls parts) a True
                     (annotated W allTools a parts s))"
        using it False by (simp split: prod.splits option.splits)
      then show ?thesis
        by (simp add: calls_of_executeToolCalls [OF assms] annotated_fields calls_of_append
              calls_of_simps calls_of_Enqueues)
    qed
  qed
qed

lemma calls_of_chat_loop:
  assumes "map_get m (JStr f) = None"
  shows "calls_of f (trace (snd (chat_loop W m cs allTools a i s))) = calls_of f (trace s)"
  using assms
proof (induction W m cs allTools a i s rule: chat_loop.induct)
  case (1 W m cs allTools a i s)
  show ?case
  proof (cases "i < maxIterations")
    case False
    then show ?thesis by (simp add: chat_loop_done)
  next
    case True
    obtain out s' where step: "chat_iteration W m cs allTools a s = (out, s')"
      by (cases "chat_iteration W m cs allTools a s")
    have same: "calls_of f (trace s') = calls_of f (trace s)"
      using calls_of_chat_iteration [OF "1.prems", of W cs allTools a s] step by simp
    show ?thesis
    proof (cases out)
      case Continue
      then have "calls_of f (trace (snd (chat_loop W m cs allTools a (i + 1) s'))) =
                   calls_of f (trace s')"
        using "1.IH" True step "1.prems" by simp
      then show ?thesis
        using step Continue same by (simp add: chat_loop_step [OF True])
    next
      case Break
      then show ?thesis using step same by (simp add: chat_loop_step [OF True])
    next
      case (Abort e)
      then show ?thesis using step same by (simp add: chat_loop_step [OF True])
    qed
  qed
qed

lemma calls_of_chat:
  assumes "map_get (mcpToolMap self) (JStr f) = None"
  shows "calls_of f (trace (snd (chat W self messages s))) = calls_of f (trace s)"
proof -
  have "calls_of f (trace (snd (chat W self messages s))) =
          calls_of f (trace (snd (new_array (arrs s messages) s)))"
    unfolding snd_chat by (rule calls_of_chat_loop [OF assms])
  then show ?thesis
    by (simp add: conversation_new_array)
qed

lemma chat_loop_aborts:
  assumes "i < maxIterations"
    and "ollama_chat W (trace s) (conversation s a) (tools_argument allTools) = Inr (parts, None)"
    and "fst (executeToolCalls W m cs (announced_tool_calls parts) a True
                (annotated W allTools a parts s)) = Some e"
  shows "fst (chat_loop W m cs allTools a i s) = Some e"
proof -
  obtain s7 where run: "executeToolCalls W m cs (announced_tool_calls parts) a True
                (annotated W allTools a parts s) = (Some e, s7)"
    using assms(3)
    by (cases "executeToolCalls W m cs (announced_tool_calls parts) a True
                 (annotated W allTools a parts s)") simp
  have "announced_tool_calls parts \<noteq> []"
    using run by auto
  then have "chat_iteration W m cs allTools a s = (Abort e, s7)"
    using chat_iteration_answer [OF assms(2), of m cs] by (simp add: run)
  then show ?thesis
    by (simp add: chat_loop_step [OF assms(1)])
qed

lemma chat_aborts:
  assumes "ollama_chat W (trace s) (conversation s messages)
             (tools_argument (getOllamaTools (mcpToolMap self))) = Inr (parts, None)"
    and "fst (executeToolCalls W (mcpToolMap self) (clients self)
                (announced_tool_calls parts) (nxt s) True
                (annotated W (getOllamaTools (mcpToolMap self)) (nxt s) parts
                   (snd (new_array (arrs s messages) s)))) = Some e"
  shows "fst (chat W self messages s) = Errored e"
proof -
  let ?s0 = "snd (new_array (arrs s messages) s)"
  let ?loop = "chat_loop W (mcpToolMap self) (clients self) (getOllamaTools (mcpToolMap self))
                 (nxt s) 0 ?s0"
  have "fst ?loop = Some e"
  proof (rule chat_loop_aborts)
    show "0 < maxIterations" by (simp add: maxIterations_def)
    show "ollama_chat W (trace ?s0) (conversation ?s0 (nxt s))
            (tools_argument (getOllamaTools (mcpToolMap self))) = Inr (parts, None)"
      using assms(1) by (simp add: conversation_new_array)
    show "fst (executeToolCalls W (mcpToolMap self) (clients self) (announced_tool_calls parts)
            (nxt s) True (annotated W (getOllamaTools (mcpToolMap self)) (nxt s) parts ?s0)) = Some e"
      by (rule assms(2))
  qed
  then show ?thesis
    by (cases ?loop) (simp add: chat_unfold)
qed

text \<open>
  Claim C1, as amended. A tool call whose name is not in the catalog is never folded into
  the conversation. Wherever it stands among the tool calls of a turn, an exception leaves
  \<^verbatim>\<open>executeToolCalls\<close> and the state is the one the tool calls before it left: no
  message is pushed for it and the calls after it are not run. The loop ends in the turn
  that announces it and the stream does not close. When the calls before it are in order
  and its own arguments decode, so that it is the first call of its turn to fail, the
  exception is \<^verbatim>\<open>MCP tool ... not found\<close> (line 195 stands before the \<^verbatim>\<open>try\<close>), and
  the stream ends with that error. In no run is such a tool called on a server.
\<close>

theorem unknown_tool_aborts:
  assumes "map_get (mcpToolMap self) (JStr (function_name tc)) = None"
  shows "fst (executeToolCalls W (mcpToolMap self) (clients self) (pre @ tc # post) a ctl s) \<noteq> None
    \<and> snd (executeToolCalls W (mcpToolMap self) (clients self) (pre @ tc # post) a ctl s) =
        snd (executeToolCalls W (mcpToolMap self) (clients self) pre a ctl s)
    \<and> ((\<forall>c \<in> set pre. call_ok W (mcpToolMap self) c)
        \<and> decode_arguments W (function_arguments tc) = Inr p \<longrightarrow>
        executeToolCalls W (mcpToolMap self) (clients self) (pre @ tc # post) a ctl s =
           (Some (Error (''MCP tool '' @ function_name tc @ '' not found'')),
            snd (executeToolCalls W (mcpToolMap self) (clients self) pre a ctl s)))
    \<and> (i < maxIterations
        \<and> ollama_chat W (trace s) (conversation s a) (tools_argument allTools) = Inr (parts, None)
        \<and> tc \<in> set (announced_tool_calls parts) \<longrightarrow>
        fst (chat_loop W (mcpToolMap self) (clients self) allTools a i s) \<noteq> None)
    \<and> (i < maxIterations
        \<and> ollama_chat W (trace s) (conversation s a) (tools_argument allTools) = Inr (parts, None)
        \<and> announced_tool_calls parts = pre @ tc # post
        \<and> (\<forall>c \<in> set pre. call_ok W (mcpToolMap self) c)
        \<and> decode_arguments W (function_arguments tc) = Inr p \<longrightarrow>
        fst (chat_loop W (mcpToolMap self) (clients self) allTools a i s) =
          Some (Error (''MCP tool '' @ function_name tc @ '' not found'')))
    \<and> (ollama_chat W (trace s) (conversation s messages)
          (tools_argument (getOllamaTools (mcpToolMap self))) = Inr (parts, None)
        \<and> tc \<in> set (announced_tool_calls parts) \<longrightarrow>
        fst (chat W self messages s) \<noteq> Closed)
    \<and> (ollama_chat W (trace s) (conversation s messages)
          (tools_argument (getOllamaTools (mcpToolMap self))) = Inr (parts, None)
        \<and> announced_tool_calls parts = pre @ tc # post
        \<and> (\<forall>c \<in> set pre. call_ok W (mcpToolMap self) c)
        \<and> decode_arguments W (function_arguments tc) = Inr p \<longrightarrow>
        fst (chat W self messages s) =
          Errored (Error (''MCP tool '' @ function_name tc @ '' not found'')))
    \<and> calls_of (function_name tc) (trace (snd (chat W self messages s))) =
        calls_of (function_name tc) (trace s)"
proof -
  let ?m = "mcpToolMap self" and ?cs = "clients self"
  let ?e = "Error (''MCP tool '' @ function_name tc @ '' not found'')"
  have bad: "\<not> call_ok W ?m tc"
    using assms by (simp add: call_ok_def split: sum.splits)
  have some: "fst (executeToolCalls W ?m ?cs tcs a' ctl' s') \<noteq> None" if "tc \<in> set tcs"
    for tcs a' ctl' s'
    using that bad by (rule executeToolCalls_some_failure)
  have one: "executeToolCall W ?m ?cs tc a' ctl' s' = (Some ?e, s')"
    if "decode_arguments W (function_arguments tc) = Inr p" for a' ctl' s'
    using that assms by (simp add: executeToolCall_def Let_def)
  have run: "executeToolCalls W ?m ?cs (pre @ tc # post) a' ctl' s' =
           (Some ?e, snd (executeToolCalls W ?m ?cs pre a' ctl' s'))"
    if "\<forall>c \<in> set pre. call_ok W ?m c" and "decode_arguments W (function_arguments tc) = Inr p"
    for a' ctl' s'
    using that(1) one [OF that(2)] by (rule executeToolCalls_first_failure)
  have loop: "fst (chat_loop W ?m ?cs allTools a i s) \<noteq> None"
    if "i < maxIterations"
      and "ollama_chat W (trace s) (conversation s a) (tools_argument allTools) = Inr (parts, None)"
      and "tc \<in> set (announced_tool_calls parts)"
  proof -
    from some [OF that(3)] obtain e where
      "fst (executeToolCalls W ?m ?cs (announced_tool_calls parts) a True
              (annotated W allTools a parts s)) = Some e"
      by blast
    with that(1,2) have "fst (chat_loop W ?m ?cs allTools a i s) = Some e"
      by (rule chat_loop_aborts)
    then show ?thesis by simp
  qed
  have loop_first: "fst (chat_loop W ?m ?cs allTools a i s) = Some ?e"
    if "i < maxIterations"
      and "ollama_chat W (trace s) (conversation s a) (tools_argument allTools) = Inr (parts, None)"
      and "announced_tool_calls parts = pre @ tc # post"
      and "\<forall>c \<in> set pre. call_ok W ?m c"
      and "decode_arguments W (function_arguments tc) = Inr p"
    using that(1,2) by (rule chat_loop_aborts) (simp add: that(3) run [OF that(4,5)])
  have whole: "fst (chat W self messages s) \<noteq> Closed"
    if "ollama_chat W (trace s) (conversation s messages)
          (tools_argument (getOllamaTools ?m)) = Inr (parts, None)"
      and "tc \<in> set (announced_tool_calls parts)"
  proof -
    from some [OF that(2)] obtain e where
      "fst (executeToolCalls W ?m ?cs (announced_tool_calls parts) (nxt s) True
              (annotated W (getOllamaTools ?m) (nxt s) parts
                 (snd (new_array (arrs s messages) s)))) = Some e"
      by blast
    with that(1) have "fst (chat W self messages s) = Errored e"
      by (rule chat_aborts)
    then show ?thesis by simp
  qed
  have first: "fst (chat W self messages s) = Errored ?e"
    if "ollama_chat W (trace s) (conversation s messages)
          (tools_argument (getOllamaTools ?m)) = Inr (parts, None)"
      and "announced_tool_calls parts = pre @ tc # post"
      and "\<forall>c \<in> set pre. call_ok W ?m c"
      and "decode_arguments W (function_arguments tc) = Inr p"
    using that(1) by (rule chat_aborts) (simp add: that(2) run [OF that(3,4)])
  show ?thesis
    using executeToolCalls_stops [OF bad, of ?cs pre post a ctl s] run loop loop_first whole first
      calls_of_chat [OF assms]
    by blast
qed

theorem unknown_tool_aborts_witness:
  "call_ok (W_always [weather_call, unknown_call]) (mcpToolMap client_w) weather_call
   \<and> decode_arguments (W_always [weather_call, unknown_call]) (function_arguments unknown_call)
       = Inr (JObj [])
   \<and> map_get (mcpToolMap client_w) (JStr (function_name unknown_call)) = None
   \<and> unknown_call \<in> set (announced_tool_calls (fst (calling [weather_call, unknown_call])))
   \<and> (0 :: nat) < maxIterations
   \<and> fst (executeToolCalls (W_always [weather_call, unknown_call]) (mcpToolMap client_w)
           (clients client_w) [weather_call, unknown_call] 0 True s0) =
       Some (Error ''MCP tool get_stock not found'')
   \<and> snd (executeToolCalls (W_always [weather_call, unknown_call]) (mcpToolMap client_w)
           (clients client_w) [weather_call, unknown_call] 0 True s0) =
       snd (executeToolCalls (W_always [weather_call, unknown_call]) (mcpToolMap client_w)
           (clients client_w) [weather_call] 0 True s0)
   \<and> fst (chat_loop (W_always [weather_call, unknown_call]) (mcpToolMap client_w)
           (clients client_w) (getOllamaTools (mcpToolMap client_w)) 0 0 s0) =
       Some (Error ''MCP tool get_stock not found'')
   \<and> fst (chat (W_always [weather_call, unknown_call]) client_w 0 s0) =
       Errored (Error ''MCP tool get_stock not found'')
   \<and> calls_of ''get_stock'' (trace (snd (chat (W_always [weather_call, unknown_call]) client_w 0 s0)))
       = []"
proof -
  let ?W = "W_always [weather_call, unknown_call]"
  let ?parts = "fst (calling [weather_call, unknown_call])"
  have 1: "\<forall>c \<in> set [weather_call]. call_ok ?W (mcpToolMap client_w) c"
    by (simp add: W_always_def call_ok_def weather_call_def W0_def client_w_def)
  have 2: "decode_arguments ?W (function_arguments unknown_call) = Inr (JObj [])"
    by (simp add: unknown_call_def)
  have 3: "map_get (mcpToolMap client_w) (JStr (function_name unknown_call)) = None"
    by (simp add: unknown_call_def client_w_def)
  have 4: "ollama_chat ?W (trace s0) (conversation s0 0)
             (tools_argument (getOllamaTools (mcpToolMap client_w))) = Inr (?parts, None)"
    by (simp add: W_always_def calling_def)
  have 5: "announced_tool_calls ?parts = [weather_call] @ unknown_call # []"
    by (simp add: calling_def announced_tool_calls_def)
  have 6: "unknown_call \<in> set (announced_tool_calls ?parts)"
    by (simp add: 5)
  have 7: "(0 :: nat) < maxIterations"
    by (simp add: maxIterations_def)
  note t = unknown_tool_aborts [OF 3, where W = ?W and pre = "[weather_call]" and post = "[]"
      and p = "JObj []" and parts = ?parts and messages = 0 and s = s0 and a = 0 and ctl = True
      and i = 0 and allTools = "getOllamaTools (mcpToolMap client_w)"]
  have run: "executeToolCalls ?W (mcpToolMap client_w) (clients client_w)
               ([weather_call] @ unknown_call # []) 0 True s0 =
             (Some (Error (''MCP tool '' @ function_name unknown_call @ '' not found'')),
              snd (executeToolCalls ?W (mcpToolMap client_w) (clients client_w) [weather_call]
                     0 True s0))"
    using t 1 2 by blast
  have loop: "fst (chat_loop ?W (mcpToolMap client_w) (clients client_w)
                (getOllamaTools (mcpToolMap client_w)) 0 0 s0) =
              Some (Error (''MCP tool '' @ function_name unknown_call @ '' not found''))"
    using t 1 2 4 5 7 by blast
  have whole: "fst (chat ?W client_w 0 s0) =
              Errored (Error (''MCP tool '' @ function_name unknown_call @ '' not found''))"
    using t 1 2 4 5 by blast
  have calls: "calls_of (function_name unknown_call) (trace (snd (chat ?W client_w 0 s0))) =
          calls_of (function_name unknown_call) (trace s0)"
    using t by blast
  have name: "function_name unknown_call = ''get_stock''" "calls_of ''get_stock'' (trace s0) = []"
    by (simp_all add: unknown_call_def s0_def calls_of_simps)
  have "fst (executeToolCalls ?W (mcpToolMap client_w) (clients client_w)
               [weather_call, unknown_call] 0 True s0) =
          Some (Error ''MCP tool get_stock not found'')
    \<and> snd (executeToolCalls ?W (mcpToolMap client_w) (clients client_w)
               [weather_call, unknown_call] 0 True s0) =
        snd (executeToolCalls ?W (mcpToolMap client_w) (clients client_w) [weather_call] 0 True s0)"
    using run by (simp add: name)
  then show ?thesis
    using 1 2 3 6 7 loop whole calls by (simp add: name)
qed

text \<open>
  Claim C1 as stated fails: when the model announces a tool the catalog does not have,
  the stream ends with the error after that one call of the model, and the conversation
  holds the user's message and the model's answer, but no tool-role message.
\<close>

theorem unknown_tool_counterexample:
  "map_get (mcpToolMap client_w) (JStr (function_name unknown_call)) = None
   \<and> fst (chat (W_always [unknown_call]) client_w 0 s0) =
       Errored (Error ''MCP tool get_stock not found'')
   \<and> model_calls (trace (snd (chat (W_always [unknown_call]) client_w 0 s0))) = 1
   \<and> map role (conversation (snd (chat (W_always [unknown_call]) client_w 0 s0)) 2) =
       [Some ''user'', None]"
proof -
  have "map_get (mcpToolMap client_w) (JStr (function_name unknown_call)) = None"
    by (simp add: unknown_call_def client_w_def)
  moreover have "fst (chat (W_always [unknown_call]) client_w 0 s0) =
       Errored (Error ''MCP tool get_stock not found'')"
    by (simp add: run_defs)
  moreover have "model_calls (trace (snd (chat (W_always [unknown_call]) client_w 0 s0))) = 1"
    by (simp add: run_defs)
  moreover have "map role (conversation (snd (chat (W_always [unknown_call]) client_w 0 s0)) 2) =
       [Some ''user'', None]"
    by (simp add: run_defs)
  ultimately show ?thesis by simp
qed

text \<open>
  Claim C9. A tool call whose arguments are a string that is not JSON makes
  \<^verbatim>\<open>executeToolCalls\<close> throw: whatever list of tool calls holds it, an exception leaves;
  when the calls before it are in order, it is the parser's \<^verbatim>\<open>SyntaxError\<close>, nothing is
  pushed for the call, and the calls after it are not run. The loop ends in that turn, and
  the stream ends with an error.
\<close>

theorem malformed_arguments_abort:
  assumes "function_arguments tc = JStr txt"
    and "json_parse W (trim W txt) = Inl msg"
  shows "(tc \<in> set tcs \<longrightarrow>
            fst (executeToolCalls W (mcpToolMap self) (clients self) tcs a ctl s) \<noteq> None)
    \<and> ((\<forall>c \<in> set pre. call_ok W (mcpToolMap self) c) \<longrightarrow>
          executeToolCalls W (mcpToolMap self) (clients self) (pre @ tc # post) a ctl s =
            (Some (SyntaxError msg),
             snd (executeToolCalls W (mcpToolMap self) (clients self) pre a ctl s)))
    \<and> (i < maxIterations
        \<and> ollama_chat W (trace s) (conversation s a) (tools_argument allTools) = Inr (parts, None)
        \<and> tc \<in> set (announced_tool_calls parts) \<longrightarrow>
        fst (chat_loop W (mcpToolMap self) (clients self) allTools a i s) \<noteq> None)
    \<and> (ollama_chat W (trace s) (conversation s messages)
          (tools_argument (getOllamaTools (mcpToolMap self))) = Inr (parts, None)
        \<and> tc \<in> set (announced_tool_calls parts) \<longrightarrow>
        fst (chat W self messages s) \<noteq> Closed)
    \<and> (ollama_chat W (trace s) (conversation s messages)
          (tools_argument (getOllamaTools (mcpToolMap self))) = Inr (parts, None)
        \<and> announced_tool_calls parts = pre @ tc # post
        \<and> (\<forall>c \<in> set pre. call_ok W (mcpToolMap self) c) \<longrightarrow>
        fst (chat W self messages s) = Errored (SyntaxError msg))"
proof -
  let ?m = "mcpToolMap self" and ?cs = "clients self"
  have bad: "\<not> call_ok W ?m tc"
    using assms by (simp add: call_ok_def)
  have one: "executeToolCall W ?m ?cs tc a' ctl' s' = (Some (SyntaxError msg), s')" for a' ctl' s'
    using assms by (simp add: executeToolCall_def Let_def)
  have some: "fst (executeToolCalls W ?m ?cs tcs a' ctl' s') \<noteq> None" if "tc \<in> set tcs"
    for tcs a' ctl' s'
    using that bad by (rule executeToolCalls_some_failure)
  have run: "executeToolCalls W ?m ?cs (pre @ tc # post) a' ctl' s' =
           (Some (SyntaxError msg), snd (executeToolCalls W ?m ?cs pre a' ctl' s'))"
    if "\<forall>c \<in> set pre. call_ok W ?m c" for a' ctl' s'
    using that one by (rule executeToolCalls_first_failure)
  have loop: "fst (chat_loop W ?m ?cs allTools a i s) \<noteq> None"
    if "i < maxIterations"
      and "ollama_chat W (trace s) (conversation s a) (tools_argument allTools) = Inr (parts, None)"
      and "tc \<in> set (announced_tool_calls parts)"
  proof -
    from some [OF that(3)] obtain e where
      "fst (executeToolCalls W ?m ?cs (announced_tool_calls parts) a True
              (annotated W allTools a parts s)) = Some e"
      by blast
    with that(1,2) have "fst (chat_loop W ?m ?cs allTools a i s) = Some e"
      by (rule chat_loop_aborts)
    then show ?thesis by simp
  qed
  have whole: "fst (chat W self messages s) \<noteq> Closed"
    if "ollama_chat W (trace s) (conversation s messages)
          (tools_argument (getOllamaTools ?m)) = Inr (parts, None)"
      and "tc \<in> set (announced_tool_calls parts)"
  proof -
    from some [OF that(2)] obtain e where
      "fst (executeToolCalls W ?m ?cs (announced_tool_calls parts) (nxt s) True
              (annotated W (getOllamaTools ?m) (nxt s) parts
                 (snd (new_array (arrs s messages) s)))) = Some e"
      by blast
    with that(1) have "fst (chat W self messages s) = Errored e"
      by (rule chat_aborts)
    then show ?thesis by simp
  qed
  have first: "fst (chat W self messages s) = Errored (SyntaxError msg)"
    if "ollama_chat W (trace s) (conversation s messages)
          (tools_argument (getOllamaTools ?m)) = Inr (parts, None)"
      and "announced_tool_calls parts = pre @ tc # post"
      and "\<forall>c \<in> set pre. call_ok W ?m c"
    using that(1) by (rule chat_aborts) (simp add: that(2) run [OF that(3)])
  show ?thesis
    using some run loop whole first by blast
qed

theorem malformed_arguments_abort_witness:
  "function_arguments malformed_call = JStr ''{oops''
   \<and> json_parse (W_always [weather_call, malformed_call])
        (trim (W_always [weather_call, malformed_call]) ''{oops'') = Inl ''Unexpected token''
   \<and> call_ok (W_always [weather_call, malformed_call]) (mcpToolMap client_w) weather_call
   \<and> fst (chat (W_always [weather_call, malformed_call]) client_w 0 s0) =
       Errored (SyntaxError ''Unexpected token'')
   \<and> map role (conversation (snd (chat (W_always [weather_call, malformed_call]) client_w 0 s0)) 2)
       = [Some ''user'', None, Some ''tool'']"
proof -
  let ?W = "W_always [weather_call, malformed_call]"
  have 1: "function_arguments malformed_call = JStr ''{oops''"
    by (simp add: malformed_call_def)
  have 2: "json_parse ?W (trim ?W ''{oops'') = Inl ''Unexpected token''"
    by (simp add: W_always_def W0_def json_text_a1_def)
  have 3: "\<forall>c \<in> set [weather_call]. call_ok ?W (mcpToolMap client_w) c"
    by (simp add: W_always_def call_ok_def weather_call_def W0_def client_w_def)
  have 4: "ollama_chat ?W (trace s0) (conversation s0 0)
             (tools_argument (getOllamaTools (mcpToolMap client_w)))
           = Inr ([\<lparr>p_content = ''Let me check.'', p_tool_calls = Some [weather_call, malformed_call]\<rparr>], None)
        \<and> announced_tool_calls
            [\<lparr>p_content = ''Let me check.'', p_tool_calls = Some [weather_call, malformed_call]\<rparr>]
           = [weather_call] @ malformed_call # []"
    by (simp add: W_always_def calling_def announced_tool_calls_def)
  note t = malformed_arguments_abort [OF 1 2, where self = client_w and pre = "[weather_call]"
      and post = "[]" and messages = 0 and s = s0]
  have 5: "fst (chat ?W client_w 0 s0) = Errored (SyntaxError ''Unexpected token'')"
    using t 3 4 by blast
  have 6: "map role (conversation (snd (chat ?W client_w 0 s0)) 2) = [Some ''user'', None, Some ''tool'']"
    by (simp add: run_defs json_text_a1_def)
  show ?thesis
    using 1 2 3 5 6 by simp
qed

subsection \<open>Failures inside the try block\<close>

lemma conversation_try_tool:
  assumes "refs_allocated s a"
  shows "conversation (try_tool W cs t f p a ctl s) a =
           conversation s a @ [tool_reply W f (dispatch W cs t f p (trace s))]"
    and "refs_allocated (try_tool W cs t f p a ctl s) a"
  by (rule conversation_push [OF assms]; simp add: try_tool_fields)+

lemma chat_iteration_continues:
  assumes "ollama_chat W (trace s) (conversation s a) (tools_argument allTools) = Inr (parts, None)"
    and "announced_tool_calls parts \<noteq> []"
    and "\<forall>c \<in> set (announced_tool_calls parts). call_ok W m c"
  shows "fst (chat_iteration W m cs allTools a s) = Continue"
proof -
  let ?run = "executeToolCalls W m cs (announced_tool_calls parts) a True
                (annotated W allTools a parts s)"
  have "fst ?run = None"
    using assms(3) by (rule executeToolCalls_ok)
  then obtain s7 where "?run = (None, s7)"
    by (cases ?run) simp
  then show ?thesis
    using chat_iteration_answer [OF assms(1), of m cs] assms(2) by simp
qed

text \<open>
  Claim C8. For a tool call whose name is in the catalog and whose arguments decode, a
  failure of the dispatch (the tool's server has no client, or the tool throws) is caught:
  the call's turn of the loop ends without an exception, exactly one tool-role message is
  appended, whose content is the serialized object with the one field \<^verbatim>\<open>error\<close>
  describing the failure, and execution goes on with the next tool call. So whatever the
  tools do, tool calls that are in order never make \<^verbatim>\<open>executeToolCalls\<close> throw, and a
  turn of the conversation loop with such tool calls goes on to the next turn.
\<close>

theorem dispatch_failure_is_folded:
  assumes "decode_arguments W (function_arguments tc) = Inr p"
    and "map_get m (JStr (function_name tc)) = Some t"
    and "dispatch W cs t (function_name tc) p (trace s) = Inl msg"
    and "refs_allocated s a"
  shows "fst (executeToolCall W m cs tc a ctl s) = None
    \<and> conversation (snd (executeToolCall W m cs tc a ctl s)) a =
        conversation s a
        @ [\<lparr>role = Some ''tool'',
             content = json_stringify W
               (JObj [(''error'',
                       JStr (''Failed to execute tool '' @ function_name tc @ '': '' @ msg))]),
             tool_calls = None, msg_name = Some (function_name tc)\<rparr>]
    \<and> executeToolCalls W m cs (tc # rest) a ctl s =
        executeToolCalls W m cs rest a ctl (snd (executeToolCall W m cs tc a ctl s))
    \<and> ((\<forall>c \<in> set tcs. call_ok W m c) \<longrightarrow>
          fst (executeToolCalls W m cs tcs a' ctl' s') = None)
    \<and> (ollama_chat W (trace s') (conversation s' a') (tools_argument allTools) = Inr (parts, None)
        \<and> announced_tool_calls parts \<noteq> []
        \<and> (\<forall>c \<in> set (announced_tool_calls parts). call_ok W m c) \<longrightarrow>
        fst (chat_iteration W m cs allTools a' s') = Continue)"
proof -
  have run: "executeToolCall W m cs tc a ctl s =
               (None, try_tool W cs t (function_name tc) p a ctl s)"
    using assms(1,2) by (simp add: executeToolCall_def Let_def)
  have "conversation (try_tool W cs t (function_name tc) p a ctl s) a =
          conversation s a @ [tool_reply W (function_name tc) (Inl msg)]"
    using conversation_try_tool(1) [OF assms(4), of W cs t "function_name tc" p ctl]
    by (simp add: assms(3))
  then have conv: "conversation (snd (executeToolCall W m cs tc a ctl s)) a =
        conversation s a
        @ [\<lparr>role = Some ''tool'',
             content = json_stringify W
               (JObj [(''error'',
                       JStr (''Failed to execute tool '' @ function_name tc @ '': '' @ msg))]),
             tool_calls = None, msg_name = Some (function_name tc)\<rparr>]"
    by (simp add: run tool_reply_def tool_message_def error_payload_def)
  show ?thesis
    using conv executeToolCalls_ok [of tcs W m cs a' ctl' s']
      chat_iteration_continues [of W s' a' allTools parts m cs]
    by (simp add: run)
qed

theorem dispatch_failure_is_folded_witness:
  "decode_arguments (W_always [failing_call]) (function_arguments failing_call) =
       Inr (JObj [(''city'', JStr ''Paris'')])
   \<and> map_get (mcpToolMap client_w) (JStr (function_name failing_call)) =
       Some (entry_of ''a'' weather_tool)
   \<and> dispatch (W_always [failing_call]) (clients client_w) (entry_of ''a'' weather_tool)
       (function_name failing_call) (JObj [(''city'', JStr ''Paris'')]) (trace s0) = Inl ''boom''
   \<and> refs_allocated s0 0
   \<and> fst (executeToolCall (W_always [failing_call]) (mcpToolMap client_w) (clients client_w)
           failing_call 0 True s0) = None
   \<and> conversation
        (snd (executeToolCall (W_always [failing_call]) (mcpToolMap client_w) (clients client_w)
                failing_call 0 True s0)) 0 =
       [user_message,
        \<lparr>role = Some ''tool'', content = ''error: Failed to execute tool get_weather: boom'',
           tool_calls = None, msg_name = Some ''get_weather''\<rparr>]
   \<and> call_ok (W_always [failing_call]) (mcpToolMap client_w) failing_call
   \<and> fst (chat_iteration (W_always [failing_call]) (mcpToolMap client_w) (clients client_w)
           (getOllamaTools (mcpToolMap client_w)) 0 s0) = Continue"
proof -
  let ?W = "W_always [failing_call]"
  have 1: "decode_arguments ?W (function_arguments failing_call) = Inr (JObj [(''city'', JStr ''Paris'')])"
    by (simp add: failing_call_def)
  have 2: "map_get (mcpToolMap client_w) (JStr (function_name failing_call)) =
       Some (entry_of ''a'' weather_tool)"
    by (simp add: failing_call_def client_w_def)
  have 3: "dispatch ?W (clients client_w) (entry_of ''a'' weather_tool) (function_name failing_call)
       (JObj [(''city'', JStr ''Paris'')]) (trace s0) = Inl ''boom''"
    by (simp add: dispatch_def client_w_def entry_of_def W_always_def W0_def failing_call_def)
  have 4: "refs_allocated s0 0"
    by (simp add: refs_allocated_def s0_def)
  have ok: "call_ok ?W (mcpToolMap client_w) failing_call"
    using 1 2 by (simp add: call_ok_def)
  have answer: "ollama_chat ?W (trace s0) (conversation s0 0)
        (tools_argument (getOllamaTools (mcpToolMap client_w))) =
          Inr ([\<lparr>p_content = ''Let me check.'', p_tool_calls = Some [failing_call]\<rparr>], None)
      \<and> announced_tool_calls [\<lparr>p_content = ''Let me check.'', p_tool_calls = Some [failing_call]\<rparr>]
          = [failing_call]"
    by (simp add: W_always_def calling_def announced_tool_calls_def)
  note t = dispatch_failure_is_folded [OF 1 2 3 4, where ctl = True and s' = s0 and a' = 0
      and allTools = "getOllamaTools (mcpToolMap client_w)"
      and parts = "[\<lparr>p_content = ''Let me check.'', p_tool_calls = Some [failing_call]\<rparr>]"]
  have 5: "fst (executeToolCall ?W (mcpToolMap client_w) (clients client_w) failing_call 0 True s0) = None"
    using t by blast
  have "conversation
        (snd (executeToolCall ?W (mcpToolMap client_w) (clients client_w) failing_call 0 True s0)) 0 =
        conversation s0 0
        @ [\<lparr>role = Some ''tool'',
             content = json_stringify ?W
               (JObj [(''error'',
                       JStr (''Failed to execute tool '' @ function_name failing_call @ '': '' @ ''boom''))]),
             tool_calls = None, msg_name = Some (function_name failing_call)\<rparr>]"
    using t by blast
  then have 6: "conversation
        (snd (executeToolCall ?W (mcpToolMap client_w) (clients client_w) failing_call 0 True s0)) 0 =
       [user_message,
        \<lparr>role = Some ''tool'', content = ''error: Failed to execute tool get_weather: boom'',
           tool_calls = None, msg_name = Some ''get_weather''\<rparr>]"
    by (simp add: conversation_def s0_def W_always_def W0_def failing_call_def)
  have 7: "fst (chat_iteration ?W (mcpToolMap client_w) (clients client_w)
           (getOllamaTools (mcpToolMap client_w)) 0 s0) = Continue"
    using t answer ok by simp
  show ?thesis
    using 1 2 3 4 5 6 7 ok by simp
qed

subsection \<open>The order of tool calls\<close>









end
